theory Spec2Isabelle
  imports Main "HOL-Library.AList"
begin

section \<open>JavaScript string operations used by the transformation\<close>

text \<open>
  Strings are lists of characters.  The case mappings \<open>toLowerCase\<close> and \<open>toUpperCase\<close>
  are built into JavaScript and follow the Unicode tables (they may even change the
  length of a string); the program does not define them.  Every function below that
  calls one of them takes it as an argument, under the names \<open>toLowerCase\<close> and
  \<open>toUpperCase\<close>, and the statements hold for every function in their place.
  \<open>asciiLowerCase\<close> and \<open>asciiUpperCase\<close> are what the two mappings do on a string of
  ASCII characters; the examples, whose strings are such, are evaluated with them.
\<close>

definition asciiLowerChar :: "char \<Rightarrow> char" where
  "asciiLowerChar c =
     (let n = (of_char c :: nat) in if 65 \<le> n \<and> n \<le> 90 then char_of (n + 32) else c)"

definition asciiUpperChar :: "char \<Rightarrow> char" where
  "asciiUpperChar c =
     (let n = (of_char c :: nat) in if 97 \<le> n \<and> n \<le> 122 then char_of (n - 32) else c)"

definition asciiLowerCase :: "string \<Rightarrow> string" where
  "asciiLowerCase s = map asciiLowerChar s"

definition asciiUpperCase :: "string \<Rightarrow> string" where
  "asciiUpperCase s = map asciiUpperChar s"

text \<open>\<open>startsWith s pat\<close>: the string \<open>s\<close> begins with \<open>pat\<close>.\<close>

definition startsWith :: "string \<Rightarrow> string \<Rightarrow> bool" where
  "startsWith s pat = (take (length pat) s = pat)"

text \<open>\<open>s.indexOf(pat)\<close>: the position of the first occurrence of \<open>pat\<close>, or \<open>-1\<close>.\<close>

fun indexOf :: "string \<Rightarrow> string \<Rightarrow> int" where
  "indexOf [] pat = (if pat = [] then 0 else - 1)"
| "indexOf (c # cs) pat =
     (if startsWith (c # cs) pat then 0
      else (let i = indexOf cs pat in if i = - 1 then - 1 else i + 1))"

text \<open>
  \<open>s.replace(pat, rep)\<close> with a string pattern: only the first occurrence of \<open>pat\<close> is
  replaced; a string without an occurrence is returned as it is.  (The replacement
  strings of the program are empty, so the \<open>$\<close> patterns of JavaScript play no role.)
\<close>

fun replace :: "string \<Rightarrow> string \<Rightarrow> string \<Rightarrow> string" where
  "replace [] pat rep = (if pat = [] then rep else [])"
| "replace (c # cs) pat rep =
     (if startsWith (c # cs) pat then rep @ drop (length pat) (c # cs)
      else c # replace cs pat rep)"

text \<open>
  \<open>s.split(sep)\<close> for a one-character separator, and \<open>ss.join(sep)\<close>.  (\<open>split\<close> never
  returns the empty list, so the first branch of its \<open>case\<close> is never taken.)
\<close>

fun split :: "string \<Rightarrow> char \<Rightarrow> string list" where
  "split [] sep = [[]]"
| "split (c # cs) sep =
     (if c = sep then [] # split cs sep
      else (case split cs sep of [] \<Rightarrow> [[c]] | w # ws \<Rightarrow> (c # w) # ws))"

fun join :: "string list \<Rightarrow> string \<Rightarrow> string" where
  "join [] sep = []"
| "join [w] sep = w"
| "join (w # v # ws) sep = w @ sep @ join (v # ws) sep"

section \<open>Data model\<close>

text \<open>
  A field record of the parser (the variables \<open>param\<close>, \<open>p\<close> and \<open>response\<close> of the
  program).  A member that the program tests for absence is an option: \<open>type\<close>,
  \<open>size\<close> and \<open>allowedValues\<close>.  The selector \<open>param_x\<close> stands for \<open>param.x\<close>.
\<close>

record param =
  param_field :: string
  param_type :: "string option"
  param_optional :: bool
  param_description :: string
  param_size :: "string option"
  param_allowedValues :: "string list option"
  param_group :: string

text \<open>
  The members of an object that the program creates with a literal \<open>{}\<close> and fills by
  assignment are kept as an association list, in the order of their creation.  This
  is the order in which JavaScript enumerates them, except for keys that are array
  indices, such as \<open>200\<close>, which it enumerates first and in numeric order; the
  examples below that show an order of keys have no such key.  The assignment
  \<open>object[key] = v\<close> replaces the value of an existing member and adds a member for a
  new key, with one exception: for the key \<open>__proto__\<close> it sets the prototype of the
  object, and the object gets no member.
\<close>

definition assign :: "string \<Rightarrow> 'v \<Rightarrow> (string \<times> 'v) list \<Rightarrow> (string \<times> 'v) list" where
  "assign key v members = (if key = ''__proto__'' then members else AList.update key v members)"

text \<open>
  A Schema Object.  \<open>ObjectSchema properties required\<close> is
  \<open>{type: 'object', properties, required}\<close>, \<open>ArraySchema items\<close> is
  \<open>{type: 'array', items}\<close>, and \<open>ScalarSchema type maxLength enum\<close> is \<open>{type}\<close> with the
  members \<open>maxLength\<close> and \<open>enum\<close> when they were set.
\<close>

datatype schema =
    ObjectSchema "(string \<times> schema) list" "string list"
  | ArraySchema schema
  | ScalarSchema string "string option" "string list option"

text \<open>The failure of the program: a \<open>TypeError\<close>, raised by an access on \<open>undefined\<close>.\<close>

datatype error = TypeError

text \<open>\<open>schema.properties[key] = s\<close> and \<open>schema.required.push(key)\<close>.\<close>

fun setProperty :: "string \<Rightarrow> schema \<Rightarrow> schema \<Rightarrow> schema" where
  "setProperty key s (ObjectSchema properties required) =
     ObjectSchema (assign key s properties) required"
| "setProperty key s other = other"

fun pushRequired :: "string \<Rightarrow> schema \<Rightarrow> schema" where
  "pushRequired key (ObjectSchema properties required) =
     ObjectSchema properties (required @ [key])"
| "pushRequired key other = other"

section \<open>Schema inference: \<open>getSchema\<close>\<close>

text \<open>
  The loop over \<open>childParams\<close> of the object branch (lines 304--310).  Each child comes
  with the result of its own \<open>getSchema\<close> call; the first call that raised ends the
  loop.
\<close>

fun addChildren :: "string \<Rightarrow> (param \<times> (error + schema)) list \<Rightarrow> schema \<Rightarrow> error + schema" where
  "addChildren ppath [] schema = Inr schema"
| "addChildren ppath ((p, r) # rest) schema =
     (case r of
        Inl e \<Rightarrow> Inl e
      | Inr s \<Rightarrow>
          (let prop = replace (param_field p) ppath '''';
               schema1 = setProperty prop s schema;
               schema2 = (if \<not> param_optional p then pushRequired prop schema1 else schema1)
           in addChildren ppath rest schema2))"

text \<open>The test of the filter that selects \<open>childParams\<close> (lines 290--294).\<close>

definition isChildOf :: "param \<Rightarrow> param \<Rightarrow> bool" where
  "isChildOf param p =
     (let ppath = param_field param @ ''.''
      in indexOf (param_field p) ppath = 0 \<and>
         indexOf (replace (param_field p) ppath '''') ''.'' = - 1)"

text \<open>
  \<open>getSchema\<close> (lines 287--330).  The test \<open>param.type && ...\<close> of \<open>isArray\<close> is false
  for an absent and for an empty type.  In the scalar branch
  \<open>param.type.toLowerCase()\<close> raises a \<open>TypeError\<close> when the field has no declared type;
  \<open>param.size\<close> counts as present when it is a non-empty string, and
  \<open>param.allowedValues\<close> when it is there at all.
\<close>

function getSchema :: "(string \<Rightarrow> string) \<Rightarrow> param list \<Rightarrow> param \<Rightarrow> error + schema" where
  "getSchema toLowerCase params param =
     (let isObject = (param_type param = Some ''Object'');
          isArray = (case param_type param of
                       None \<Rightarrow> False
                     | Some t \<Rightarrow> t \<noteq> [] \<and> indexOf t ''[]'' \<noteq> - 1);
          childParams = filter (isChildOf param) params
      in if isObject then
           addChildren (param_field param @ ''.'')
             (map (\<lambda>p. (p, getSchema toLowerCase params p)) childParams)
             (ObjectSchema [] [])
         else if isArray then
           (case getSchema toLowerCase params
                   (param\<lparr>param_type := Some (replace (the (param_type param)) ''[]'' '''')\<rparr>) of
              Inl e \<Rightarrow> Inl e
            | Inr items \<Rightarrow> Inr (ArraySchema items))
         else
           (case param_type param of
              None \<Rightarrow> Inl TypeError
            | Some t \<Rightarrow>
                Inr (ScalarSchema (toLowerCase t)
                      (case param_size param of
                         None \<Rightarrow> None
                       | Some sz \<Rightarrow>
                           if toLowerCase t = ''string'' \<and> sz \<noteq> []
                           then Some (replace sz ''..'' '''') else None)
                      (param_allowedValues param))))"
  by pat_completeness auto

section \<open>Route templates and direct fields\<close>

text \<open>
  \<open>toPatternedFieldname\<close> (lines 272--279); \<open>segment[0] === ':'\<close> is false for the empty
  segment.  \<open>filterParentParams\<close> (lines 282--284) keeps the fields without a dot.
\<close>

definition patternSegment :: "string \<Rightarrow> string" where
  "patternSegment segment =
     (case segment of
        [] \<Rightarrow> segment
      | c # rest \<Rightarrow> if c = CHR '':'' then ''{'' @ rest @ ''}'' else segment)"

definition toPatternedFieldname :: "string \<Rightarrow> string" where
  "toPatternedFieldname url = join (map patternSegment (split url CHR ''/'')) ''/''"

definition filterParentParams :: "param list \<Rightarrow> param list" where
  "filterParentParams params = filter (\<lambda>param. indexOf (param_field param) ''.'' = - 1) params"

section \<open>The output objects\<close>

text \<open>
  A Parameter Object; \<open>parameter_schema\<close> is the member
  \<open>content['application/json'].schema\<close> and \<open>parameter_in\<close> the member \<open>in\<close>.
\<close>

record parameterObject =
  parameter_name :: string
  parameter_description :: string
  parameter_in :: string
  parameter_required :: bool
  parameter_schema :: schema

text \<open>
  The object \<open>requestBodyObject\<close>: the empty object \<open>{}\<close> of the operation literal, or
  \<open>{required, content: {'application/json': {schema}}}\<close> once a body field was met.
\<close>

datatype requestBodyObject = EmptyObject | RequestBody bool schema

text \<open>
  A Response Object \<open>{content: {'application/json': {schema}}}\<close> is given by its schema;
  \<open>responsesObject\<close> maps status codes to Response Objects.
\<close>

type_synonym responsesObject = "(string \<times> schema) list"

text \<open>
  An Operation.  A member that an Operation may lack is an option, \<open>None\<close> when the
  Operation has no such member: \<open>requestBody\<close> after
  \<open>delete operationObject.requestBody\<close>, \<open>deprecated\<close> when it was never assigned.
  \<open>parameters\<close> is an option as well, so that its presence is a statement about the
  program (the deletion of an empty \<open>parameters\<close> is commented out, lines 233--235).
\<close>

record operationObject =
  operation_summary :: string
  operation_description :: string
  operation_operationId :: string
  operation_parameters :: "parameterObject list option"
  operation_requestBody :: "requestBodyObject option"
  operation_responses :: responsesObject
  operation_tags :: "string list"
  operation_deprecated :: "bool option"

type_synonym pathItemObject = "(string \<times> operationObject) list"

type_synonym pathsObject = "(string \<times> pathItemObject) list"

text \<open>
  A member of an endpoint record that the program tests for absence and then reads
  without a further test.  \<open>Absent\<close>: the member is not there; \<open>Present x\<close>: it is
  there, and what the program reads from it is \<open>x\<close>; \<open>Malformed\<close>: it is there, but
  not with the shape that the program reads, and the read raises a \<open>TypeError\<close>.
\<close>

datatype 'a member = Absent | Malformed | Present 'a

text \<open>
  An endpoint record of the parser (the variable \<open>item\<close>).

  \<^item> \<open>item_header\<close> is \<open>Present h\<close> when \<open>item.header.fields.Header\<close> is the list \<open>h\<close>,
    and \<open>Malformed\<close> when \<open>item.header\<close> is there without a list
    \<open>fields.Header\<close> (headers declared under another group name), which line 143
    spreads without a test.
  \<^item> \<open>item_Parameter\<close> and \<open>item_URI_Parameter\<close> are the members \<open>Parameter\<close> and
    \<open>'URI Parameter'\<close> of \<open>item.parameter.fields\<close>, \<open>None\<close> when the program's tests
    (lines 144 and 146--148) do not find a list there.
  \<^item> \<open>item_success\<close> is \<open>Present gs\<close> when \<open>Object.values(item.success.fields)\<close> is
    the list \<open>gs\<close> of field groups, in the order JavaScript enumerates them, and
    \<open>Malformed\<close> when \<open>item.success\<close> is there without \<open>fields\<close> (a success
    example without success fields), on which \<open>Object.values\<close> raises (line 197);
    \<open>item_error\<close> likewise (line 198).
\<close>

record item =
  item_url :: string
  item_type :: string
  item_title :: string
  item_description :: string
  item_group :: string
  item_name :: string
  item_deprecated :: bool
  item_header :: "param list member"
  item_Parameter :: "param list option"
  item_URI_Parameter :: "param list option"
  item_success :: "param list list member"
  item_error :: "param list list member"

section \<open>Parameters and request body\<close>

text \<open>\<open>addParam\<close> (lines 244--257) pushes a Parameter Object with location \<open>path\<close>.\<close>

definition addParam ::
  "(string \<Rightarrow> string) \<Rightarrow> param \<Rightarrow> param list \<Rightarrow> parameterObject list
     \<Rightarrow> error + parameterObject list" where
  "addParam toLowerCase param params store =
     (case getSchema toLowerCase params param of
        Inl e \<Rightarrow> Inl e
      | Inr s \<Rightarrow>
          Inr (store @
            [\<lparr>parameter_name = param_field param,
              parameter_description = param_description param,
              parameter_in = ''path'',
              parameter_required = (\<not> param_optional param),
              parameter_schema = s\<rparr>]))"

text \<open>The loop \<open>for (const param of pathParams)\<close> (lines 149--151).\<close>

fun addPathParams ::
  "(string \<Rightarrow> string) \<Rightarrow> param list \<Rightarrow> param list \<Rightarrow> parameterObject list
     \<Rightarrow> error + parameterObject list" where
  "addPathParams toLowerCase pathParams [] store = Inr store"
| "addPathParams toLowerCase pathParams (param # rest) store =
     (case addParam toLowerCase param pathParams store of
        Inl e \<Rightarrow> Inl e
      | Inr store1 \<Rightarrow> addPathParams toLowerCase pathParams rest store1)"

text \<open>
  The body of the loop \<open>for (const param of params)\<close> (lines 154--195): one field is
  classified as a header, a query parameter or a body property.  The state is the list
  \<open>parameterObjects\<close> and the object \<open>requestBodyObject\<close>, which is filled with
  \<open>Object.assign\<close> when it has no key yet.  (After that it has the member \<open>content\<close>,
  so the \<open>EmptyObject\<close> branch of the \<open>case\<close> is never taken.)
\<close>

definition classifyParam ::
  "(string \<Rightarrow> string) \<Rightarrow> string \<Rightarrow> param list \<Rightarrow> param
     \<Rightarrow> parameterObject list \<times> requestBodyObject
     \<Rightarrow> error + (parameterObject list \<times> requestBodyObject)" where
  "classifyParam toLowerCase httpMethod params param st =
     (let parameterObjects = fst st;
          requestBodyObject = snd st;
          isHeader = (param_group param = ''Header'');
          isQueryParam = (\<not> isHeader \<and> httpMethod \<in> set [''get'', ''delete'']);
          isBodyParam = (\<not> isQueryParam)
      in if isHeader \<or> isQueryParam then
           (case getSchema toLowerCase params param of
              Inl e \<Rightarrow> Inl e
            | Inr s \<Rightarrow>
                Inr (parameterObjects @
                  [\<lparr>parameter_name = param_field param,
                    parameter_description = param_description param,
                    parameter_in = (if isHeader then ''header'' else ''query''),
                    parameter_required = (\<not> param_optional param),
                    parameter_schema = s\<rparr>], requestBodyObject))
         else if isBodyParam then
           (let requestBodyObject1 =
                  (if requestBodyObject = EmptyObject
                   then RequestBody True (ObjectSchema [] []) else requestBodyObject)
            in case getSchema toLowerCase params param of
                 Inl e \<Rightarrow> Inl e
               | Inr s \<Rightarrow>
                   (case requestBodyObject1 of
                      EmptyObject \<Rightarrow> Inl TypeError
                    | RequestBody r schema \<Rightarrow>
                        (let schema1 = setProperty (param_field param) s schema;
                             schema2 = (if \<not> param_optional param
                                        then pushRequired (param_field param) schema1
                                        else schema1)
                         in Inr (parameterObjects, RequestBody r schema2))))
         else Inr st)"

fun classifyParams ::
  "(string \<Rightarrow> string) \<Rightarrow> string \<Rightarrow> param list \<Rightarrow> param list
     \<Rightarrow> parameterObject list \<times> requestBodyObject
     \<Rightarrow> error + (parameterObject list \<times> requestBodyObject)" where
  "classifyParams toLowerCase httpMethod params [] st = Inr st"
| "classifyParams toLowerCase httpMethod params (param # rest) st =
     (case classifyParam toLowerCase httpMethod params param st of
        Inl e \<Rightarrow> Inl e
      | Inr st1 \<Rightarrow> classifyParams toLowerCase httpMethod params rest st1)"

section \<open>Responses\<close>

text \<open>
  \<open>response.group.replace(/(Success|Error)\ /, '')\<close> (line 207): the regular expression
  is not anchored and not global, so the leftmost occurrence of \<open>Success \<close> or
  \<open>Error \<close> is removed.
\<close>

fun replaceSuccessError :: "string \<Rightarrow> string" where
  "replaceSuccessError [] = []"
| "replaceSuccessError (c # cs) =
     (if startsWith (c # cs) ''Success '' then drop 8 (c # cs)
      else if startsWith (c # cs) ''Error '' then drop 6 (c # cs)
      else c # replaceSuccessError cs)"

definition statusCodeOf :: "(string \<Rightarrow> string) \<Rightarrow> param \<Rightarrow> string" where
  "statusCodeOf toUpperCase response =
     toUpperCase (replaceSuccessError (param_group response))"

text \<open>
  The loop \<open>for (const response of filterParentParams(responses))\<close> (lines 203--226).
  The state is the variable \<open>responseObject\<close> (\<open>None\<close> for \<open>undefined\<close>; otherwise the
  status code it was stored under and its schema) and the map \<open>responsesObject\<close>.  The
  map holds a reference to the Response Object, so every change of the schema is also
  a change of the map's entry.
\<close>

fun addResponses ::
  "(string \<Rightarrow> string) \<Rightarrow> (string \<Rightarrow> string) \<Rightarrow> param list \<Rightarrow> param list
     \<Rightarrow> (string \<times> schema) option \<times> responsesObject
     \<Rightarrow> error + ((string \<times> schema) option \<times> responsesObject)" where
  "addResponses toLowerCase toUpperCase responses [] st = Inr st"
| "addResponses toLowerCase toUpperCase responses (response # rest) st =
     (let created = (case fst st of
                       None \<Rightarrow> (statusCodeOf toUpperCase response, ObjectSchema [] [])
                     | Some r \<Rightarrow> r);
          statusCode = fst created;
          schema = snd created
      in case getSchema toLowerCase responses response of
           Inl e \<Rightarrow> Inl e
         | Inr s \<Rightarrow>
             (let schema1 = setProperty (param_field response) s schema;
                  schema2 = (if \<not> param_optional response
                             then pushRequired (param_field response) schema1 else schema1)
              in addResponses toLowerCase toUpperCase responses rest
                   (Some (statusCode, schema2), assign statusCode schema2 (snd st))))"

text \<open>The loop \<open>for (const responses of responseGroups)\<close> (lines 200--227).\<close>

fun addResponseGroups ::
  "(string \<Rightarrow> string) \<Rightarrow> (string \<Rightarrow> string) \<Rightarrow> param list list \<Rightarrow> responsesObject
     \<Rightarrow> error + responsesObject" where
  "addResponseGroups toLowerCase toUpperCase [] responsesObject = Inr responsesObject"
| "addResponseGroups toLowerCase toUpperCase (responses # rest) responsesObject =
     (case addResponses toLowerCase toUpperCase responses (filterParentParams responses)
             (None, responsesObject) of
        Inl e \<Rightarrow> Inl e
      | Inr st \<Rightarrow> addResponseGroups toLowerCase toUpperCase rest (snd st))"

section \<open>Assembling the paths: \<open>getPaths\<close>\<close>

text \<open>
  What the spread \<open>...(member ? list : [])\<close> of lines 143 and 197--198 adds to an
  array literal: nothing for an absent member, the list of a member that has it, and
  a \<open>TypeError\<close> for a member without the list.
\<close>

fun spread :: "'a list member \<Rightarrow> error + 'a list" where
  "spread Absent = Inr []"
| "spread Malformed = Inl TypeError"
| "spread (Present xs) = Inr xs"

text \<open>
  The lists \<open>params\<close> (lines 142--145), \<open>pathParams\<close> (lines 146--148; empty when
  \<open>'URI Parameter'\<close> is no array) and \<open>responseGroups\<close> (lines 196--199) that one
  pass of the loop of \<open>getPaths\<close> takes from \<open>item\<close>.
\<close>

definition itemParams :: "item \<Rightarrow> error + param list" where
  "itemParams item =
     (case spread (item_header item) of
        Inl e \<Rightarrow> Inl e
      | Inr headerFields \<Rightarrow>
          Inr (headerFields @ (case item_Parameter item of None \<Rightarrow> [] | Some ps \<Rightarrow> ps)))"

definition itemPathParams :: "item \<Rightarrow> param list" where
  "itemPathParams item = (case item_URI_Parameter item of None \<Rightarrow> [] | Some ps \<Rightarrow> ps)"

definition itemResponseGroups :: "item \<Rightarrow> error + param list list" where
  "itemResponseGroups item =
     (case spread (item_success item) of
        Inl e \<Rightarrow> Inl e
      | Inr successGroups \<Rightarrow>
          (case spread (item_error item) of
             Inl e \<Rightarrow> Inl e
           | Inr errorGroups \<Rightarrow> Inr (successGroups @ errorGroups)))"

text \<open>
  The Operation that one pass of the loop of \<open>getPaths\<close> builds for \<open>item\<close> (lines
  126--238), in the order of the program: the literal starts with \<open>parameters: []\<close>,
  \<open>requestBody: {}\<close> and \<open>responses: {}\<close>; \<open>params\<close> is read; the loops over the path
  parameters and over \<open>params\<close> fill the first two; \<open>responseGroups\<close> is read and its
  loop fills the third; at the end \<open>requestBody\<close> is deleted when it is still empty.
\<close>

definition buildOperation ::
  "(string \<Rightarrow> string) \<Rightarrow> (string \<Rightarrow> string) \<Rightarrow> item \<Rightarrow> error + operationObject" where
  "buildOperation toLowerCase toUpperCase item =
     (let httpMethod = item_type item;
          pathParams = itemPathParams item
      in case itemParams item of
           Inl e \<Rightarrow> Inl e
         | Inr params \<Rightarrow>
      (case addPathParams toLowerCase pathParams pathParams [] of
           Inl e \<Rightarrow> Inl e
         | Inr parameterObjects1 \<Rightarrow>
      (case classifyParams toLowerCase httpMethod params params
              (parameterObjects1, EmptyObject) of
           Inl e \<Rightarrow> Inl e
         | Inr st \<Rightarrow>
      (case itemResponseGroups item of
           Inl e \<Rightarrow> Inl e
         | Inr responseGroups \<Rightarrow>
      (case addResponseGroups toLowerCase toUpperCase responseGroups [] of
           Inl e \<Rightarrow> Inl e
         | Inr responsesObject \<Rightarrow>
             Inr \<lparr>operation_summary = item_title item,
                  operation_description = item_description item,
                  operation_operationId = item_group item @ ''.'' @ item_name item,
                  operation_parameters = Some (fst st),
                  operation_requestBody =
                    (if snd st = EmptyObject then None else Some (snd st)),
                  operation_responses = responsesObject,
                  operation_tags = [item_group item],
                  operation_deprecated =
                    (if item_deprecated item then Some True else None)\<rparr>)))))"

text \<open>
  The names of the members that every object inherits from \<open>Object.prototype\<close>.  The
  read \<open>pathsObject[endpoint]\<close> of line 121 finds the inherited member under such a
  name, also in the empty \<open>pathsObject\<close>.
\<close>

definition objectPrototypeNames :: "string list" where
  "objectPrototypeNames =
     [''constructor'', ''__defineGetter__'', ''__defineSetter__'', ''hasOwnProperty'',
      ''__lookupGetter__'', ''__lookupSetter__'', ''isPrototypeOf'', ''propertyIsEnumerable'',
      ''toString'', ''valueOf'', ''__proto__'', ''toLocaleString'']"

text \<open>
  The loop \<open>for (const item of data)\<close> of \<open>getPaths\<close> (lines 116--242): the Path Item
  of the normalized route is fetched or created, and the Operation is stored under the
  HTTP method.  When the route is the name of an inherited member, the fetch gives
  that member, the Operation is stored on it, and \<open>pathsObject\<close> gets no member.  Such
  a store changes an object that the whole run shares (for the route \<open>__proto__\<close>, the
  prototype of every object); what it does to the later passes when they read the
  stored key is not modelled, and the general statements about \<open>getPaths\<close> are for
  inputs without such a route.
\<close>

fun getPathsLoop ::
  "(string \<Rightarrow> string) \<Rightarrow> (string \<Rightarrow> string) \<Rightarrow> item list \<Rightarrow> pathsObject
     \<Rightarrow> error + pathsObject" where
  "getPathsLoop toLowerCase toUpperCase [] pathsObject = Inr pathsObject"
| "getPathsLoop toLowerCase toUpperCase (item # rest) pathsObject =
     (let endpoint = toPatternedFieldname (item_url item);
          httpMethod = item_type item
      in case buildOperation toLowerCase toUpperCase item of
           Inl e \<Rightarrow> Inl e
         | Inr operationObject \<Rightarrow>
             if endpoint \<in> set objectPrototypeNames
             then getPathsLoop toLowerCase toUpperCase rest pathsObject
             else
               (let pathItemObject =
                      (case map_of pathsObject endpoint of None \<Rightarrow> [] | Some pio \<Rightarrow> pio)
                in getPathsLoop toLowerCase toUpperCase rest
                     (AList.update endpoint
                        (assign httpMethod operationObject pathItemObject) pathsObject)))"

definition getPaths ::
  "(string \<Rightarrow> string) \<Rightarrow> (string \<Rightarrow> string) \<Rightarrow> item list \<Rightarrow> error + pathsObject" where
  "getPaths toLowerCase toUpperCase data = getPathsLoop toLowerCase toUpperCase data []"

section \<open>The specification's notions\<close>

text \<open>
  The specification's words for the nesting of fields: \<open>p\<close> is a direct child of
  \<open>param\<close> when its path starts with the path of \<open>param\<close> and a dot, and has no further
  dot after that prefix; \<open>childName\<close> is the path without the prefix.  The direct
  fields of a response group are the fields whose path has no dot.
\<close>

definition childName :: "param \<Rightarrow> param \<Rightarrow> string" where
  "childName param p = drop (length (param_field param) + 1) (param_field p)"

definition directChild :: "param \<Rightarrow> param \<Rightarrow> bool" where
  "directChild param p \<longleftrightarrow>
     startsWith (param_field p) (param_field param @ ''.'') \<and>
     CHR ''.'' \<notin> set (childName param p)"

definition directFields :: "param list \<Rightarrow> param list" where
  "directFields responses = [r \<leftarrow> responses. CHR ''.'' \<notin> set (param_field r)]"

text \<open>A field record with a path, a declared type, the optional flag and a group label.\<close>

abbreviation exampleField :: "string \<Rightarrow> string \<Rightarrow> bool \<Rightarrow> string \<Rightarrow> param" where
  "exampleField f t opt g \<equiv>
     \<lparr>param_field = f, param_type = Some t, param_optional = opt, param_description = '''',
      param_size = None, param_allowedValues = None, param_group = g\<rparr>"

text \<open>
  The specification's classification of a header or generic parameter field: a body
  field is one whose group label is not \<open>Header\<close>, on a method other than \<open>get\<close> and
  \<open>delete\<close>.
\<close>

definition isBodyField :: "string \<Rightarrow> param \<Rightarrow> bool" where
  "isBodyField httpMethod param \<longleftrightarrow>
     param_group param \<noteq> ''Header'' \<and> httpMethod \<noteq> ''get'' \<and> httpMethod \<noteq> ''delete''"

text \<open>
  The field records of an endpoint record, read from the record itself: the header
  fields followed by the generic parameter fields, and the success groups followed by
  the error groups.  (A malformed member has no fields to read.)
\<close>

fun present :: "'a list member \<Rightarrow> 'a list" where
  "present Absent = []"
| "present Malformed = []"
| "present (Present xs) = xs"

definition headerAndParameterFields :: "item \<Rightarrow> param list" where
  "headerAndParameterFields item =
     present (item_header item) @ (case item_Parameter item of None \<Rightarrow> [] | Some ps \<Rightarrow> ps)"

definition successAndErrorGroups :: "item \<Rightarrow> param list list" where
  "successAndErrorGroups item = present (item_success item) @ present (item_error item)"

text \<open>
  An endpoint record is well formed when none of its members is malformed and every
  field record has a declared type.
\<close>

definition wellFormedItem :: "item \<Rightarrow> bool" where
  "wellFormedItem item \<longleftrightarrow>
     item_header item \<noteq> Malformed \<and> item_success item \<noteq> Malformed \<and>
     item_error item \<noteq> Malformed \<and>
     list_all (\<lambda>p. param_type p \<noteq> None) (headerAndParameterFields item) \<and>
     list_all (\<lambda>p. param_type p \<noteq> None) (itemPathParams item) \<and>
     list_all (list_all (\<lambda>p. param_type p \<noteq> None)) (successAndErrorGroups item)"

text \<open>An endpoint record with a route, a method and its field groups.\<close>

abbreviation exampleItem ::
  "string \<Rightarrow> string \<Rightarrow> param list member \<Rightarrow> param list option \<Rightarrow> param list option
     \<Rightarrow> param list list member \<Rightarrow> param list list member \<Rightarrow> item" where
  "exampleItem url httpMethod headerFields paramFields pathFields success failure \<equiv>
     \<lparr>item_url = url, item_type = httpMethod, item_title = ''title'',
      item_description = ''description'', item_group = ''User'', item_name = ''Name'',
      item_deprecated = False, item_header = headerFields, item_Parameter = paramFields,
      item_URI_Parameter = pathFields, item_success = success, item_error = failure\<rparr>"

text \<open>
  The specification's derivation of a status code, word for word: a leading
  \<open>Success \<close> or \<open>Error \<close> prefix of the group label is stripped (the remainder is then
  upper-cased).
\<close>

definition stripLeadingPrefix :: "string \<Rightarrow> string" where
  "stripLeadingPrefix label =
     (if startsWith label ''Success '' then drop 8 label
      else if startsWith label ''Error '' then drop 6 label
      else label)"

text \<open>
  Reading the output: \<open>pathsObject[endpoint][httpMethod]\<close>, and the last record of the
  input with a given route and method.
\<close>

definition lookupOperation :: "pathsObject \<Rightarrow> string \<Rightarrow> string \<Rightarrow> operationObject option" where
  "lookupOperation pathsObject endpoint httpMethod =
     (case map_of pathsObject endpoint of
        None \<Rightarrow> None
      | Some pathItemObject \<Rightarrow> map_of pathItemObject httpMethod)"

definition lastRecord :: "item list \<Rightarrow> string \<Rightarrow> string \<Rightarrow> item" where
  "lastRecord data endpoint httpMethod =
     last [item \<leftarrow> data. toPatternedFieldname (item_url item) = endpoint \<and>
                         item_type item = httpMethod]"

section \<open>Properties of the string operations\<close>

lemma startsWith_length: "startsWith s pat \<Longrightarrow> length pat \<le> length s"
  unfolding startsWith_def by (drule arg_cong [where f = length]) simp

lemma indexOf_ge: "- 1 \<le> indexOf s pat"
  by (induction s) (auto simp: Let_def)

lemma indexOf_0_startsWith: "indexOf s pat = 0 \<longleftrightarrow> startsWith s pat"
proof (cases s)
  case Nil
  then show ?thesis by (auto simp: startsWith_def)
next
  case (Cons c cs)
  have "indexOf cs pat \<noteq> - 1 \<Longrightarrow> indexOf cs pat + 1 \<noteq> 0"
    using indexOf_ge [of cs pat] by linarith
  with Cons show ?thesis by (auto simp: Let_def)
qed

lemma replace_length:
  "indexOf s pat \<noteq> - 1 \<Longrightarrow> length (replace s pat rep) + length pat = length s + length rep"
proof (induction s)
  case Nil
  then show ?case by (auto split: if_splits)
next
  case (Cons c cs)
  show ?case
  proof (cases "startsWith (c # cs) pat")
    case True
    with startsWith_length [of "c # cs" pat] show ?thesis by simp
  next
    case False
    with Cons.prems have "indexOf cs pat \<noteq> - 1" by (auto simp: Let_def split: if_splits)
    with Cons.IH False show ?thesis by simp
  qed
qed

lemma startsWith_Cons_single: "startsWith (x # xs) [c] \<longleftrightarrow> x = c"
  by (simp add: startsWith_def)

lemma indexOf_char: "indexOf s [c] = - 1 \<longleftrightarrow> c \<notin> set s"
proof (induction s)
  case Nil
  then show ?case by simp
next
  case (Cons x xs)
  have "indexOf xs [c] + 1 \<noteq> - 1"
    using indexOf_ge [of xs "[c]"] by linarith
  with Cons show ?case
    by (auto simp: startsWith_Cons_single Let_def)
qed

lemma indexOf_Cons_in_set: "indexOf s (c # pat) \<noteq> - 1 \<Longrightarrow> c \<in> set s"
proof (induction s)
  case Nil
  then show ?case by simp
next
  case (Cons x xs)
  show ?case
  proof (cases "startsWith (x # xs) (c # pat)")
    case True
    then show ?thesis by (simp add: startsWith_def)
  next
    case False
    with Cons.prems have "indexOf xs (c # pat) \<noteq> - 1"
      by (auto simp: Let_def split: if_splits)
    with Cons.IH show ?thesis by simp
  qed
qed

lemma replace_prefix: "startsWith s pat \<Longrightarrow> replace s pat rep = rep @ drop (length pat) s"
  by (cases s) (auto simp: startsWith_def)

lemma replace_separator:
  "CHR ''.'' \<notin> set lower \<Longrightarrow> replace (lower @ ''..'' @ upper) ''..'' '''' = lower @ upper"
  by (induction lower) (auto simp: startsWith_def)

lemma isChildOf_longer: "isChildOf param p \<Longrightarrow> length (param_field param) < length (param_field p)"
proof -
  assume "isChildOf param p"
  then have "startsWith (param_field p) (param_field param @ ''.'')"
    by (simp add: isChildOf_def Let_def indexOf_0_startsWith)
  then have "length (param_field param @ ''.'') \<le> length (param_field p)"
    by (rule startsWith_length)
  then show ?thesis by simp
qed

termination getSchema
proof (relation "measures
    [\<lambda>(toLowerCase, params, param).
        sum_list (map (\<lambda>p. length (param_field p)) params) - length (param_field param),
     \<lambda>(toLowerCase, params, param).
        (case param_type param of None \<Rightarrow> 0 | Some t \<Rightarrow> length t)]", goal_cases)
  case 1
  then show ?case by simp
next
  case (2 toLowerCase params param isObject isArray childParams p)
  then have mem: "p \<in> set params" and child: "isChildOf param p" by auto
  have "length (param_field p) \<le> sum_list (map (\<lambda>p. length (param_field p)) params)"
    using mem by (simp add: member_le_sum_list)
  with isChildOf_longer [OF child]
  have "sum_list (map (\<lambda>p. length (param_field p)) params) - length (param_field p)
      < sum_list (map (\<lambda>p. length (param_field p)) params) - length (param_field param)"
    by arith
  then show ?case by simp
next
  case (3 toLowerCase params param isObject isArray childParams)
  then obtain t where t: "param_type param = Some t" "indexOf t ''[]'' \<noteq> - 1"
    by (auto split: option.splits)
  from replace_length [OF t(2), of "''''"] have "length (replace t ''[]'' '''') < length t"
    by simp
  with t show ?case by simp
qed

declare getSchema.simps [simp del]

section \<open>Route template normalization\<close>

lemma split_not_Nil: "split s sep \<noteq> []"
  by (induction s) (auto split: list.splits)

lemma split_no_sep: "sep \<notin> set w \<Longrightarrow> split w sep = [w]"
  by (induction w) auto

lemma split_append_sep: "sep \<notin> set w \<Longrightarrow> split (w @ sep # rest) sep = w # split rest sep"
  by (induction w) (auto simp: split_not_Nil split: list.splits)

lemma split_join:
  "segments \<noteq> [] \<Longrightarrow> \<forall>s\<in>set segments. sep \<notin> set s \<Longrightarrow>
   split (join segments [sep]) sep = segments"
proof (induction segments "[sep]" rule: join.induct)
  case 1
  then show ?case by simp
next
  case (2 w)
  then show ?case by (simp add: split_no_sep)
next
  case (3 w v ws)
  then show ?case by (simp add: split_append_sep)
qed

text \<open>
  Every string is the \<open>join\<close> of its segments, and no segment holds the separator: the
  segments of a route template are the only way to write it as separator-free pieces.
\<close>

lemma join_split: "join (split s sep) [sep] = s"
proof (induction s)
  case Nil
  then show ?case by simp
next
  case (Cons c cs)
  obtain w ws where ws: "split cs sep = w # ws"
    using split_not_Nil [of cs sep] by (cases "split cs sep") auto
  with Cons show ?case by (cases ws) auto
qed

lemma split_segments_free: "\<forall>w\<in>set (split s sep). sep \<notin> set w"
  by (induction s) (auto split: list.splits)

lemma patternSegment_startsWith:
  "patternSegment segment =
     (if startsWith segment '':'' then ''{'' @ drop 1 segment @ ''}'' else segment)"
  by (cases segment) (auto simp: patternSegment_def startsWith_def)

text \<open>
  Claim C8.  A route template that is made of the segments \<open>segments\<close>, joined with
  \<open>/\<close>, is normalized segment by segment: a segment that starts with \<open>:\<close> becomes
  \<open>{\<close> + remainder + \<open>}\<close>, every other segment is unchanged, and the results are joined
  with \<open>/\<close> again.
\<close>

theorem toPatternedFieldname_segments:
  assumes "\<forall>s\<in>set segments. CHR ''/'' \<notin> set s"
  shows "toPatternedFieldname (join segments ''/'') =
         join (map (\<lambda>segment. if startsWith segment '':'' then ''{'' @ drop 1 segment @ ''}''
                               else segment) segments) ''/''"
proof (cases "segments = []")
  case True
  then show ?thesis
    by (simp add: toPatternedFieldname_def patternSegment_def)
next
  case False
  with assms have "split (join segments ''/'') CHR ''/'' = segments"
    by (simp add: split_join)
  then show ?thesis
    by (simp add: toPatternedFieldname_def patternSegment_startsWith [abs_def])
qed

theorem toPatternedFieldname_segments_witness:
  "(CHR ''/'' \<notin> set '''' \<and> CHR ''/'' \<notin> set ''users'' \<and>
    CHR ''/'' \<notin> set '':id'' \<and> CHR ''/'' \<notin> set '':postId'') \<and>
   toPatternedFieldname ''/users/:id/:postId'' = ''/users/{id}/{postId}''"
  using toPatternedFieldname_segments [of "['''', ''users'', '':id'', '':postId'']"]
  by (simp add: startsWith_def)

section \<open>Schema inference\<close>

text \<open>
  For a type that ends in the marker and holds no other marker, removing the first
  marker removes the suffix: the element type is what stands before it.
\<close>

lemma replace_marker_suffix:
  "indexOf base ''[]'' = - 1 \<Longrightarrow> replace (base @ ''[]'') ''[]'' '''' = base"
proof (induction base)
  case Nil
  then show ?case by (simp add: startsWith_def)
next
  case (Cons c cs)
  from Cons.prems indexOf_ge [of cs "''[]''"]
  have here: "\<not> startsWith (c # cs) ''[]''" and rest: "indexOf cs ''[]'' = - 1"
    by (auto simp: Let_def split: if_splits)
  from here have "\<not> startsWith (c # cs @ ''[]'') ''[]''"
    by (cases cs) (auto simp: startsWith_def)
  with Cons.IH [OF rest] show ?case by simp
qed

text \<open>
  Claim C4.  A field whose declared type holds the array marker \<open>[]\<close> and is not
  \<open>Object\<close> is inferred as an array schema; its \<open>items\<close> is the schema inferred for the
  same field with the (first) marker removed from the type, and a failure of that
  inference is the failure of the whole.
\<close>

theorem getSchema_Array:
  assumes "param_type param = Some t" and "t \<noteq> ''Object''" and "indexOf t ''[]'' \<noteq> - 1"
  shows "getSchema toLowerCase params param =
         (case getSchema toLowerCase params (param\<lparr>param_type := Some (replace t ''[]'' '''')\<rparr>) of
            Inl e \<Rightarrow> Inl e
          | Inr items \<Rightarrow> Inr (ArraySchema items))"
proof -
  from assms(3) have "t \<noteq> []" by auto
  with assms show ?thesis
    by (subst getSchema.simps) (simp add: Let_def)
qed

theorem getSchema_Array_witness:
  "''Number[]'' \<noteq> ''Object'' \<and> indexOf ''Number[]'' ''[]'' \<noteq> - 1 \<and>
   getSchema asciiLowerCase []
     \<lparr>param_field = ''ids'', param_type = Some ''Number[]'', param_optional = False,
      param_description = '''', param_size = None, param_allowedValues = None,
      param_group = ''Parameter''\<rparr>
   = Inr (ArraySchema (ScalarSchema ''number'' None None))"
proof -
  have marker: "indexOf ''Number[]'' ''[]'' \<noteq> - 1"
    by code_simp
  have removed: "replace ''Number[]'' ''[]'' '''' = ''Number''"
    by code_simp
  have items: "getSchema asciiLowerCase []
     \<lparr>param_field = ''ids'', param_type = Some ''Number'', param_optional = False,
      param_description = '''', param_size = None, param_allowedValues = None,
      param_group = ''Parameter''\<rparr> = Inr (ScalarSchema ''number'' None None)"
    by code_simp
  show ?thesis
    using getSchema_Array
        [where param = "\<lparr>param_field = ''ids'', param_type = Some ''Number[]'',
           param_optional = False, param_description = '''', param_size = None,
           param_allowedValues = None, param_group = ''Parameter''\<rparr>"
         and params = "[]" and toLowerCase = asciiLowerCase, OF _ _ marker]
      marker removed items
    by simp
qed


lemma isChildOf_childName:
  "isChildOf param p \<Longrightarrow> replace (param_field p) (param_field param @ ''.'') '''' = childName param p"
  by (simp add: isChildOf_def childName_def Let_def indexOf_0_startsWith replace_prefix)

lemma directChild_iff:
  "directChild param p \<longleftrightarrow>
     (\<exists>name. param_field p = param_field param @ ''.'' @ name \<and> CHR ''.'' \<notin> set name)"
proof
  assume d: "directChild param p"
  then have "take (length (param_field param) + 1) (param_field p) = param_field param @ ''.''"
    by (simp add: directChild_def startsWith_def)
  then have "param_field p = param_field param @ ''.'' @ childName param p"
    unfolding childName_def
    by (metis append.assoc append_take_drop_id)
  with d show "\<exists>name. param_field p = param_field param @ ''.'' @ name \<and> CHR ''.'' \<notin> set name"
    unfolding directChild_def by blast
next
  assume "\<exists>name. param_field p = param_field param @ ''.'' @ name \<and> CHR ''.'' \<notin> set name"
  then show "directChild param p"
    by (auto simp: directChild_def childName_def startsWith_def)
qed

text \<open>
  A run of assignments, read as a map: the later assignment to a key stays, and the
  assignments to \<open>__proto__\<close> leave no member.
\<close>

lemma map_of_assign:
  "map_of (assign key v members) =
     (if key = ''__proto__'' then map_of members else (map_of members)(key \<mapsto> v))"
  by (simp add: assign_def update_conv')


lemma addChildren_Inr:
  assumes "\<forall>pr\<in>set prs. snd pr = Inr (sch (fst pr))"
  shows "addChildren ppath prs (ObjectSchema ps rq) =
     Inr (ObjectSchema
       (fold (\<lambda>pr. assign (replace (param_field (fst pr)) ppath '''') (sch (fst pr))) prs ps)
       (rq @ map (\<lambda>pr. replace (param_field (fst pr)) ppath '''')
               (filter (\<lambda>pr. \<not> param_optional (fst pr)) prs)))"
  using assms
proof (induction prs arbitrary: ps rq)
  case Nil
  then show ?case by simp
next
  case (Cons pr prs)
  obtain p r where pr: "pr = (p, r)" by (cases pr)
  with Cons.prems have r: "r = Inr (sch p)" by simp
  from Cons.prems have rest: "\<forall>pr\<in>set prs. snd pr = Inr (sch (fst pr))" by simp
  show ?case
    by (simp add: pr r Let_def Cons.IH [OF rest])
qed

lemma getSchema_Object_fold:
  assumes obj: "param_type param = Some ''Object''"
    and kids: "\<forall>c\<in>set params. isChildOf param c \<longrightarrow> getSchema toLowerCase params c = Inr (inferred c)"
  shows "getSchema toLowerCase params param =
     Inr (ObjectSchema
       (fold (\<lambda>c. assign (childName param c) (inferred c)) (filter (isChildOf param) params) [])
       (map (childName param) (filter (\<lambda>c. \<not> param_optional c) (filter (isChildOf param) params))))"
proof -
  let ?ppath = "param_field param @ ''.''"
  let ?children = "filter (isChildOf param) params"
  let ?prs = "map (\<lambda>p. (p, getSchema toLowerCase params p)) ?children"
  have ok: "\<forall>pr\<in>set ?prs. snd pr = Inr (inferred (fst pr))"
    using kids by auto
  have get: "getSchema toLowerCase params param = addChildren ?ppath ?prs (ObjectSchema [] [])"
    using obj by (subst getSchema.simps) (simp add: Let_def)
  have name: "\<And>c. c \<in> set ?children \<Longrightarrow> replace (param_field c) ?ppath '''' = childName param c"
    by (simp add: isChildOf_childName)
  have props: "fold (\<lambda>pr. assign (replace (param_field (fst pr)) ?ppath '''') (inferred (fst pr))) ?prs []
      = fold (\<lambda>c. assign (childName param c) (inferred c)) ?children []"
    unfolding fold_map by (rule fold_cong) (auto simp: name)
  have req: "map (\<lambda>pr. replace (param_field (fst pr)) ?ppath '''') (filter (\<lambda>pr. \<not> param_optional (fst pr)) ?prs)
      = map (childName param) (filter (\<lambda>c. \<not> param_optional c) ?children)"
    by (simp add: filter_map comp_def isChildOf_childName)
  show ?thesis
    unfolding get addChildren_Inr [OF ok] props req by simp
qed

text \<open>Inference returns a schema for a field with a declared type among such fields.\<close>

lemma getSchema_typed:
  "\<forall>p\<in>set params. param_type p \<noteq> None \<Longrightarrow> param_type param \<noteq> None \<Longrightarrow>
   \<exists>s. getSchema toLowerCase params param = Inr s"
proof (induction toLowerCase params param rule: getSchema.induct)
  case (1 toLowerCase params param)
  from "1.prems" obtain t where t: "param_type param = Some t" by auto
  show ?case
  proof (cases "t = ''Object''")
    case True
    have "\<forall>c\<in>set params. isChildOf param c \<longrightarrow>
        getSchema toLowerCase params c = Inr (projr (getSchema toLowerCase params c))"
    proof (intro ballI impI)
      fix c assume c: "c \<in> set params" "isChildOf param c"
      with "1.prems" have "param_type c \<noteq> None" by simp
      with "1.IH"(1) [OF refl refl refl _ _ "1.prems"(1), of c] c t True
      obtain s where "getSchema toLowerCase params c = Inr s" by auto
      then show "getSchema toLowerCase params c = Inr (projr (getSchema toLowerCase params c))"
        by simp
    qed
    with getSchema_Object_fold [of param params toLowerCase
        "\<lambda>c. projr (getSchema toLowerCase params c)"] t True
    show ?thesis by simp
  next
    case notObject: False
    show ?thesis
    proof (cases "t \<noteq> [] \<and> indexOf t ''[]'' \<noteq> - 1")
      case True
      with "1.IH"(2) [OF refl refl refl _ _ "1.prems"(1)] t notObject
      obtain s where
        "getSchema toLowerCase params (param\<lparr>param_type := Some (replace t ''[]'' '''')\<rparr>) = Inr s"
        by auto
      with True t notObject show ?thesis
        by (subst getSchema.simps) (simp add: Let_def)
    next
      case False
      with t notObject show ?thesis
        by (subst getSchema.simps) (auto simp: Let_def)
    qed
  qed
qed




lemma getSchema_scalar:
  assumes "param_type param = Some t" and "t \<noteq> ''Object''" and "indexOf t ''[]'' = - 1"
  shows "getSchema toLowerCase params param =
     Inr (ScalarSchema (toLowerCase t)
           (case param_size param of
              None \<Rightarrow> None
            | Some sz \<Rightarrow> if toLowerCase t = ''string'' \<and> sz \<noteq> []
                          then Some (replace sz ''..'' '''') else None)
           (param_allowedValues param))"
  using assms by (subst getSchema.simps) (simp add: Let_def)

text \<open>
  What the scalar branch does with a size constraint \<open>lower..upper\<close>: \<open>maxLength\<close> is
  the lower bound followed by the upper bound.
\<close>

lemma getSchema_string_size:
  assumes "param_type param = Some t" and "t \<noteq> ''Object''" and "indexOf t ''[]'' = - 1"
    and "toLowerCase t = ''string''"
    and "param_size param = Some (lower @ ''..'' @ upper)" and "CHR ''.'' \<notin> set lower"
  shows "getSchema toLowerCase params param =
     Inr (ScalarSchema ''string'' (Some (lower @ upper)) (param_allowedValues param))"
  using assms replace_separator [OF assms(6), of upper]
  by (simp add: getSchema_scalar)

text \<open>
  Claim C1.  The program at a field of type \<open>String\<close> with the size constraint
  \<open>4..20\<close>: \<open>replace\<close> takes the separator out and keeps the text before it, so
  \<open>maxLength\<close> is the text \<open>420\<close>, not the text \<open>20\<close> after the separator.
\<close>

theorem getSchema_size_4_20:
  "getSchema asciiLowerCase params
     \<lparr>param_field = ''name'', param_type = Some ''String'', param_optional = False,
      param_description = '''', param_size = Some ''4..20'', param_allowedValues = None,
      param_group = ''Parameter''\<rparr>
   = Inr (ScalarSchema ''string'' (Some ''420'') None)"
  by code_simp

section \<open>Parameters and request body\<close>

lemma addParam_Inr:
  "addParam toLowerCase param params store = Inr r \<longleftrightarrow>
     (\<exists>s. getSchema toLowerCase params param = Inr s \<and>
          r = store @ [\<lparr>parameter_name = param_field param,
                         parameter_description = param_description param,
                         parameter_in = ''path'',
                         parameter_required = (\<not> param_optional param),
                         parameter_schema = s\<rparr>])"
  by (auto simp: addParam_def split: sum.splits)

lemma addPathParams_names:
  "addPathParams toLowerCase pathParams ps store = Inr r \<Longrightarrow>
   map parameter_name r = map parameter_name store @ map param_field ps"
proof (induction ps arbitrary: store)
  case Nil
  then show ?case by simp
next
  case (Cons p ps)
  from Cons.prems obtain store1 where
    1: "addParam toLowerCase p pathParams store = Inr store1" and 2: "addPathParams toLowerCase pathParams ps store1 = Inr r"
    by (auto split: sum.splits)
  from 1 have "map parameter_name store1 = map parameter_name store @ [param_field p]"
    by (auto simp: addParam_Inr)
  with Cons.IH [OF 2] show ?case by simp
qed

lemma addPathParams_total:
  "\<forall>p\<in>set ps. \<exists>s. getSchema toLowerCase pathParams p = Inr s \<Longrightarrow> \<exists>r. addPathParams toLowerCase pathParams ps store = Inr r"
proof (induction ps arbitrary: store)
  case Nil
  then show ?case by simp
next
  case (Cons p ps)
  then obtain s where "getSchema toLowerCase pathParams p = Inr s" by auto
  then obtain store1 where "addParam toLowerCase p pathParams store = Inr store1"
    by (simp add: addParam_def)
  with Cons show ?case by simp
qed

lemma classifyParam_cases:
  assumes "classifyParam toLowerCase httpMethod params param (po, rb) = Inr (po1, rb1)"
  shows "if isBodyField httpMethod param
         then po1 = po \<and> rb1 \<noteq> EmptyObject
         else rb1 = rb \<and> map parameter_name po1 = map parameter_name po @ [param_field param]"
  using assms
  by (auto simp: classifyParam_def isBodyField_def Let_def
      split: sum.splits if_splits requestBodyObject.splits)

lemma classifyParam_total:
  "\<exists>s. getSchema toLowerCase params param = Inr s \<Longrightarrow> \<exists>st1. classifyParam toLowerCase httpMethod params param st = Inr st1"
  by (cases "snd st") (auto simp: classifyParam_def Let_def)

lemma classifyParams_split:
  "classifyParams toLowerCase httpMethod params ps (po, rb) = Inr (po1, rb1) \<Longrightarrow>
   map parameter_name po1 =
     map parameter_name po @ map param_field [p \<leftarrow> ps. \<not> isBodyField httpMethod p] \<and>
   (rb1 = EmptyObject \<longleftrightarrow> rb = EmptyObject \<and> [p \<leftarrow> ps. isBodyField httpMethod p] = [])"
proof (induction ps arbitrary: po rb)
  case Nil
  then show ?case by simp
next
  case (Cons p ps)
  from Cons.prems obtain po2 rb2 where
    1: "classifyParam toLowerCase httpMethod params p (po, rb) = Inr (po2, rb2)" and
    2: "classifyParams toLowerCase httpMethod params ps (po2, rb2) = Inr (po1, rb1)"
    by (auto split: sum.splits)
  from classifyParam_cases [OF 1] Cons.IH [OF 2] show ?case
    by (cases "isBodyField httpMethod p") auto
qed

lemma classifyParams_total:
  "\<forall>p\<in>set ps. \<exists>s. getSchema toLowerCase params p = Inr s \<Longrightarrow> \<exists>st1. classifyParams toLowerCase httpMethod params ps st = Inr st1"
proof (induction ps arbitrary: st)
  case Nil
  then show ?case by simp
next
  case (Cons p ps)
  then obtain st1 where "classifyParam toLowerCase httpMethod params p st = Inr st1"
    using classifyParam_total [of toLowerCase params p httpMethod st] by auto
  with Cons show ?case by simp
qed


text \<open>
  Claim C2.  The program at a \<open>post\<close> endpoint whose generic parameter group holds the
  object field \<open>address\<close> and its child \<open>address.city\<close>: the loop over \<open>params\<close> does
  not leave out dotted paths (the loop over the responses does, with
  \<open>filterParentParams\<close>), so the child is classified on its own and the request body
  gets the property \<open>address.city\<close> next to \<open>address\<close>, whose schema holds \<open>city\<close>
  already.
\<close>

theorem buildOperation_nested_body_field:
  "buildOperation asciiLowerCase toUpperCase
     (exampleItem ''/users'' ''post'' Absent
        (Some [exampleField ''address'' ''Object'' False ''Parameter'',
               exampleField ''address.city'' ''String'' False ''Parameter''])
        None Absent Absent)
   = Inr \<lparr>operation_summary = ''title'', operation_description = ''description'',
          operation_operationId = ''User.Name'', operation_parameters = Some [],
          operation_requestBody =
            Some (RequestBody True
              (ObjectSchema
                 [(''address'', ObjectSchema [(''city'', ScalarSchema ''string'' None None)] [''city'']),
                  (''address.city'', ScalarSchema ''string'' None None)]
                 [''address'', ''address.city''])),
          operation_responses = [], operation_tags = [''User''],
          operation_deprecated = None\<rparr>"
  by code_simp

section \<open>Response groups\<close>

lemma filterParentParams_direct: "filterParentParams responses = directFields responses"
  by (simp add: filterParentParams_def directFields_def indexOf_char)

lemma assign_assign: "assign key v (assign key w members) = assign key v members"
  by (simp add: assign_def)

lemma addResponses_Some:
  assumes "\<forall>r\<in>set rs. getSchema toLowerCase responses r = Inr (inferred r)"
  shows "addResponses toLowerCase toUpperCase responses rs (Some (code, ObjectSchema ps rq), ro) =
     Inr (Some (code,
            ObjectSchema (fold (\<lambda>r. assign (param_field r) (inferred r)) rs ps)
              (rq @ map param_field (filter (\<lambda>r. \<not> param_optional r) rs))),
          if rs = [] then ro
          else assign code
            (ObjectSchema (fold (\<lambda>r. assign (param_field r) (inferred r)) rs ps)
              (rq @ map param_field (filter (\<lambda>r. \<not> param_optional r) rs))) ro)"
  using assms
proof (induction rs arbitrary: ps rq ro)
  case Nil
  then show ?case by simp
next
  case (Cons r rs)
  from Cons.prems have rest: "\<forall>r\<in>set rs. getSchema toLowerCase responses r = Inr (inferred r)"
    and r: "getSchema toLowerCase responses r = Inr (inferred r)" by simp_all
  show ?case
    by (simp add: r Let_def Cons.IH [OF rest] assign_assign)
qed

lemma addResponses_None:
  assumes "\<forall>r\<in>set (r0 # rs). getSchema toLowerCase responses r = Inr (inferred r)"
  shows "addResponses toLowerCase toUpperCase responses (r0 # rs) (None, ro) =
     Inr (Some (statusCodeOf toUpperCase r0,
            ObjectSchema (fold (\<lambda>r. assign (param_field r) (inferred r)) (r0 # rs) [])
              (map param_field (filter (\<lambda>r. \<not> param_optional r) (r0 # rs)))),
          assign (statusCodeOf toUpperCase r0)
            (ObjectSchema (fold (\<lambda>r. assign (param_field r) (inferred r)) (r0 # rs) [])
              (map param_field (filter (\<lambda>r. \<not> param_optional r) (r0 # rs)))) ro)"
proof -
  from assms have rest: "\<forall>r\<in>set rs. getSchema toLowerCase responses r = Inr (inferred r)"
    and r0: "getSchema toLowerCase responses r0 = Inr (inferred r0)" by simp_all
  show ?thesis
    by (simp add: r0 Let_def addResponses_Some [OF rest] assign_assign)
qed

lemma addResponses_Inr_schemas:
  "addResponses toLowerCase toUpperCase responses rs st = Inr st1 \<Longrightarrow>
   \<forall>r\<in>set rs. \<exists>s. getSchema toLowerCase responses r = Inr s"
proof (induction rs arbitrary: st)
  case Nil
  then show ?case by simp
next
  case (Cons r rs)
  from Cons.prems obtain s where s: "getSchema toLowerCase responses r = Inr s"
    by (cases "getSchema toLowerCase responses r") (auto simp: Let_def)
  with Cons.prems obtain st2 where
    "addResponses toLowerCase toUpperCase responses rs st2 = Inr st1"
    by (auto simp: Let_def)
  from Cons.IH [OF this] s show ?case by auto
qed

text \<open>
  One pass of the loop over the response groups, from any responses map: a group
  without a direct field leaves the map as it is; a group with direct fields assigns,
  under the status code of the first of them, the schema that holds them all.
\<close>

lemma addResponseGroups_single:
  assumes "\<forall>r\<in>set (directFields responses). getSchema toLowerCase responses r = Inr (inferred r)"
  shows "addResponseGroups toLowerCase toUpperCase [responses] responsesObject =
     Inr (case directFields responses of
            [] \<Rightarrow> responsesObject
          | r0 # rs \<Rightarrow>
              assign (statusCodeOf toUpperCase r0)
                (ObjectSchema
                  (fold (\<lambda>r. assign (param_field r) (inferred r)) (r0 # rs) [])
                  (map param_field (filter (\<lambda>r. \<not> param_optional r) (r0 # rs))))
                responsesObject)"
proof (cases "directFields responses")
  case Nil
  then show ?thesis by (simp add: filterParentParams_direct)
next
  case (Cons r0 rs)
  with assms have "\<forall>r\<in>set (r0 # rs). getSchema toLowerCase responses r = Inr (inferred r)"
    by simp
  from addResponses_None [OF this] Cons show ?thesis
    by (simp add: filterParentParams_direct)
qed

lemma addResponseGroups_append:
  "addResponseGroups toLowerCase toUpperCase (gs @ hs) ro =
     (case addResponseGroups toLowerCase toUpperCase gs ro of
        Inl e \<Rightarrow> Inl e
      | Inr r \<Rightarrow> addResponseGroups toLowerCase toUpperCase hs r)"
  by (induction gs arbitrary: ro) (auto split: sum.splits)

lemma addResponseGroups_single_Inr:
  assumes "addResponseGroups toLowerCase toUpperCase [responses] ro = Inr r"
  shows "\<forall>r\<in>set (directFields responses).
           getSchema toLowerCase responses r = Inr (projr (getSchema toLowerCase responses r))"
proof -
  from assms obtain st where
    "addResponses toLowerCase toUpperCase responses (filterParentParams responses) (None, ro) = Inr st"
    by (auto split: sum.splits)
  from addResponses_Inr_schemas [OF this] show ?thesis
    by (auto simp: filterParentParams_direct)
qed

lemma addResponseGroups_split:
  assumes "addResponseGroups toLowerCase toUpperCase (before @ [responses] @ after) ro = Inr result"
  shows "\<exists>responsesBefore responsesAfter.
     addResponseGroups toLowerCase toUpperCase before ro = Inr responsesBefore \<and>
     addResponseGroups toLowerCase toUpperCase [responses] responsesBefore = Inr responsesAfter \<and>
     addResponseGroups toLowerCase toUpperCase after responsesAfter = Inr result"
proof -
  from assms obtain responsesBefore where
    1: "addResponseGroups toLowerCase toUpperCase before ro = Inr responsesBefore" and
    2: "addResponseGroups toLowerCase toUpperCase ([responses] @ after) responsesBefore = Inr result"
    using addResponseGroups_append [of toLowerCase toUpperCase before "[responses] @ after" ro]
    by (cases "addResponseGroups toLowerCase toUpperCase before ro") simp_all
  from 2 obtain responsesAfter where
    3: "addResponseGroups toLowerCase toUpperCase [responses] responsesBefore = Inr responsesAfter" and
    4: "addResponseGroups toLowerCase toUpperCase after responsesAfter = Inr result"
    using addResponseGroups_append [of toLowerCase toUpperCase "[responses]" after responsesBefore]
    by (cases "addResponseGroups toLowerCase toUpperCase [responses] responsesBefore") simp_all
  from 1 3 4 show ?thesis by blast
qed

lemma addResponseGroups_other_code:
  assumes "addResponseGroups toLowerCase toUpperCase gs ro = Inr result"
    and "\<forall>g\<in>set gs. \<forall>r rs. directFields g = r # rs \<longrightarrow> statusCodeOf toUpperCase r \<noteq> code"
  shows "map_of result code = map_of ro code"
  using assms
proof (induction gs arbitrary: ro)
  case Nil
  then show ?case by simp
next
  case (Cons g gs)
  from Cons.prems(1) obtain r1 where
    1: "addResponseGroups toLowerCase toUpperCase [g] ro = Inr r1" and
    2: "addResponseGroups toLowerCase toUpperCase gs r1 = Inr result"
    using addResponseGroups_append [of toLowerCase toUpperCase "[g]" gs ro]
    by (auto split: sum.splits)
  from Cons.prems(2) have rest: "\<forall>g\<in>set gs. \<forall>r rs. directFields g = r # rs \<longrightarrow>
      statusCodeOf toUpperCase r \<noteq> code"
    and here: "\<forall>r rs. directFields g = r # rs \<longrightarrow> statusCodeOf toUpperCase r \<noteq> code"
    by simp_all
  from addResponseGroups_single [OF addResponseGroups_single_Inr [OF 1], of toUpperCase ro] 1 here
  have "map_of r1 code = map_of ro code"
    by (cases "directFields g") (auto simp: map_of_assign simp del: fold_simps filter.simps)
  with Cons.IH [OF 2 rest] show ?case by simp
qed

lemma addResponseGroups_total:
  "\<forall>g\<in>set gs. \<forall>r\<in>set g. \<exists>s. getSchema toLowerCase g r = Inr s \<Longrightarrow>
   \<exists>r. addResponseGroups toLowerCase toUpperCase gs ro = Inr r"
proof (induction gs arbitrary: ro)
  case Nil
  then show ?case by simp
next
  case (Cons g gs)
  then have "\<forall>r\<in>set (directFields g).
      getSchema toLowerCase g r = Inr (projr (getSchema toLowerCase g r))"
    by (fastforce simp: directFields_def)
  from addResponseGroups_single [OF this] obtain r1 where
    "addResponseGroups toLowerCase toUpperCase [g] ro = Inr r1"
    by blast
  moreover from Cons obtain r2 where "addResponseGroups toLowerCase toUpperCase gs r1 = Inr r2"
    by fastforce
  ultimately show ?case
    using addResponseGroups_append [of toLowerCase toUpperCase "[g]" gs ro] by simp
qed

section \<open>Operations\<close>

lemma itemParams_Inr:
  "itemParams item = Inr params \<longleftrightarrow>
     item_header item \<noteq> Malformed \<and> params = headerAndParameterFields item"
  by (cases "item_header item") (auto simp: itemParams_def headerAndParameterFields_def)

lemma itemResponseGroups_Inr:
  "itemResponseGroups item = Inr groups \<longleftrightarrow>
     item_success item \<noteq> Malformed \<and> item_error item \<noteq> Malformed \<and>
     groups = successAndErrorGroups item"
  by (cases "item_success item"; cases "item_error item")
    (auto simp: itemResponseGroups_def successAndErrorGroups_def)

lemma buildOperation_Inr:
  "buildOperation toLowerCase toUpperCase item = Inr operation \<longleftrightarrow>
     (\<exists>parameterObjects1 st responsesObject.
        item_header item \<noteq> Malformed \<and> item_success item \<noteq> Malformed \<and>
        item_error item \<noteq> Malformed \<and>
        addPathParams toLowerCase (itemPathParams item) (itemPathParams item) []
          = Inr parameterObjects1 \<and>
        classifyParams toLowerCase (item_type item) (headerAndParameterFields item)
          (headerAndParameterFields item) (parameterObjects1, EmptyObject) = Inr st \<and>
        addResponseGroups toLowerCase toUpperCase (successAndErrorGroups item) []
          = Inr responsesObject \<and>
        operation =
          \<lparr>operation_summary = item_title item,
           operation_description = item_description item,
           operation_operationId = item_group item @ ''.'' @ item_name item,
           operation_parameters = Some (fst st),
           operation_requestBody = (if snd st = EmptyObject then None else Some (snd st)),
           operation_responses = responsesObject,
           operation_tags = [item_group item],
           operation_deprecated = (if item_deprecated item then Some True else None)\<rparr>)"
proof (cases "itemParams item")
  case (Inl e)
  then have "item_header item = Malformed"
    by (cases "item_header item") (auto simp: itemParams_def)
  with Inl show ?thesis
    by (simp add: buildOperation_def Let_def)
next
  case params: (Inr params)
  then have ps: "item_header item \<noteq> Malformed" "params = headerAndParameterFields item"
    by (simp_all add: itemParams_Inr)
  show ?thesis
  proof (cases "itemResponseGroups item")
    case (Inl e)
    then have "item_success item = Malformed \<or> item_error item = Malformed"
      by (cases "item_success item"; cases "item_error item")
        (auto simp: itemResponseGroups_def)
    with Inl params show ?thesis
      by (auto simp: buildOperation_def Let_def split: sum.splits)
  next
    case (Inr groups)
    then have gs: "item_success item \<noteq> Malformed" "item_error item \<noteq> Malformed"
        "groups = successAndErrorGroups item"
      by (simp_all add: itemResponseGroups_Inr)
    from params Inr ps gs show ?thesis
      by (auto simp: buildOperation_def Let_def split: sum.splits)
  qed
qed

lemma buildOperation_wellFormed:
  assumes "wellFormedItem item"
  shows "\<exists>operation. buildOperation toLowerCase toUpperCase item = Inr operation"
proof -
  from assms have params: "\<forall>p\<in>set (headerAndParameterFields item). param_type p \<noteq> None"
    and pathParams: "\<forall>p\<in>set (itemPathParams item). param_type p \<noteq> None"
    and groups: "\<forall>g\<in>set (successAndErrorGroups item). \<forall>p\<in>set g. param_type p \<noteq> None"
    and members: "item_header item \<noteq> Malformed" "item_success item \<noteq> Malformed"
      "item_error item \<noteq> Malformed"
    by (simp_all add: wellFormedItem_def list_all_iff)
  from pathParams have "\<forall>p\<in>set (itemPathParams item).
      \<exists>s. getSchema toLowerCase (itemPathParams item) p = Inr s"
    by (simp add: getSchema_typed)
  from addPathParams_total [OF this] obtain po1 where
    1: "addPathParams toLowerCase (itemPathParams item) (itemPathParams item) [] = Inr po1"
    by blast
  from params have "\<forall>p\<in>set (headerAndParameterFields item).
      \<exists>s. getSchema toLowerCase (headerAndParameterFields item) p = Inr s"
    by (simp add: getSchema_typed)
  from classifyParams_total [OF this] obtain st where
    2: "classifyParams toLowerCase (item_type item) (headerAndParameterFields item)
          (headerAndParameterFields item) (po1, EmptyObject) = Inr st"
    by blast
  from groups have "\<forall>g\<in>set (successAndErrorGroups item). \<forall>r\<in>set g.
      \<exists>s. getSchema toLowerCase g r = Inr s"
    by (simp add: getSchema_typed)
  from addResponseGroups_total [OF this] obtain ro where
    3: "addResponseGroups toLowerCase toUpperCase (successAndErrorGroups item) [] = Inr ro"
    by blast
  from 1 2 3 members show ?thesis
    by (simp add: buildOperation_Inr)
qed

text \<open>
  Claim C5.  The Operation of an endpoint (one is built whenever the endpoint record
  is well formed) has no \<open>requestBody\<close> member exactly when no header or generic
  parameter field is classified as a body field, and \<open>requestBody\<close> is never the empty
  object.  Its \<open>parameters\<close> member is there in every case: it is the list that names
  the path fields and then the header and query fields, the empty list when there are
  none.
\<close>

theorem buildOperation_requestBody:
  "(wellFormedItem item \<longrightarrow>
      (\<exists>operation. buildOperation toLowerCase toUpperCase item = Inr operation)) \<and>
   (\<forall>operation. buildOperation toLowerCase toUpperCase item = Inr operation \<longrightarrow>
      (operation_requestBody operation = None \<longleftrightarrow>
         [p \<leftarrow> headerAndParameterFields item. isBodyField (item_type item) p] = []) \<and>
      operation_requestBody operation \<noteq> Some EmptyObject \<and>
      (\<exists>parameterObjects.
         operation_parameters operation = Some parameterObjects \<and>
         map parameter_name parameterObjects =
           map param_field
             (itemPathParams item @
              [p \<leftarrow> headerAndParameterFields item. \<not> isBodyField (item_type item) p])))"
proof (intro conjI allI impI)
  assume "wellFormedItem item"
  then show "\<exists>operation. buildOperation toLowerCase toUpperCase item = Inr operation"
    by (rule buildOperation_wellFormed)
next
  fix operation
  assume "buildOperation toLowerCase toUpperCase item = Inr operation"
  then obtain po1 po rb where
    1: "addPathParams toLowerCase (itemPathParams item) (itemPathParams item) [] = Inr po1" and
    2: "classifyParams toLowerCase (item_type item) (headerAndParameterFields item)
          (headerAndParameterFields item) (po1, EmptyObject) = Inr (po, rb)" and
    body: "operation_requestBody operation = (if rb = EmptyObject then None else Some rb)" and
    parameters: "operation_parameters operation = Some po"
    by (auto simp: buildOperation_Inr)
  note split = classifyParams_split [OF 2]
  from split body
  show "operation_requestBody operation = None \<longleftrightarrow>
      [p \<leftarrow> headerAndParameterFields item. isBodyField (item_type item) p] = []"
    by simp
  from body show "operation_requestBody operation \<noteq> Some EmptyObject"
    by simp
  from split addPathParams_names [OF 1] parameters
  show "\<exists>parameterObjects.
      operation_parameters operation = Some parameterObjects \<and>
      map parameter_name parameterObjects =
        map param_field
          (itemPathParams item @
           [p \<leftarrow> headerAndParameterFields item. \<not> isBodyField (item_type item) p])"
    by simp
qed

theorem buildOperation_requestBody_witness:
  "(\<exists>operation parameterObjects.
      buildOperation asciiLowerCase asciiUpperCase
        (exampleItem ''/users/:id'' ''get''
           (Present [exampleField ''Authorization'' ''String'' False ''Header''])
           (Some [exampleField ''name'' ''String'' False ''Parameter'',
                  exampleField ''age'' ''Number'' True ''Parameter''])
           (Some [exampleField ''id'' ''Number'' False ''URI Parameter'']) Absent Absent)
        = Inr operation \<and>
      operation_requestBody operation = None \<and>
      operation_parameters operation = Some parameterObjects \<and>
      map parameter_name parameterObjects = [''id'', ''Authorization'', ''name'', ''age'']) \<and>
   (\<exists>operation parameterObjects.
      buildOperation asciiLowerCase asciiUpperCase
        (exampleItem ''/users/:id'' ''put''
           (Present [exampleField ''Authorization'' ''String'' False ''Header''])
           (Some [exampleField ''name'' ''String'' False ''Parameter'',
                  exampleField ''age'' ''Number'' True ''Parameter''])
           (Some [exampleField ''id'' ''Number'' False ''URI Parameter'']) Absent Absent)
        = Inr operation \<and>
      operation_requestBody operation \<noteq> None \<and>
      operation_requestBody operation \<noteq> Some EmptyObject \<and>
      operation_parameters operation = Some parameterObjects \<and>
      map parameter_name parameterObjects = [''id'', ''Authorization'']) \<and>
   (\<exists>operation.
      buildOperation asciiLowerCase asciiUpperCase
        (exampleItem ''/users'' ''post'' Absent None None Absent Absent) = Inr operation \<and>
      operation_requestBody operation = None \<and>
      operation_parameters operation = Some [])"
proof -
  define header where "header = Present [exampleField ''Authorization'' ''String'' False ''Header'']"
  define fields where "fields = Some [exampleField ''name'' ''String'' False ''Parameter'',
      exampleField ''age'' ''Number'' True ''Parameter'']"
  define path where "path = Some [exampleField ''id'' ''Number'' False ''URI Parameter'']"
  define getItem where "getItem = exampleItem ''/users/:id'' ''get'' header fields path Absent Absent"
  define putItem where "putItem = exampleItem ''/users/:id'' ''put'' header fields path Absent Absent"
  define postItem where "postItem = exampleItem ''/users'' ''post'' Absent None None Absent Absent"
  note items = getItem_def putItem_def postItem_def header_def fields_def path_def
  have wellFormed: "wellFormedItem getItem" "wellFormedItem putItem" "wellFormedItem postItem"
    unfolding items by code_simp+
  have bodyGet: "[p \<leftarrow> headerAndParameterFields getItem. isBodyField (item_type getItem) p] = []"
    unfolding items by code_simp
  have bodyPut: "[p \<leftarrow> headerAndParameterFields putItem. isBodyField (item_type putItem) p] \<noteq> []"
    unfolding items by code_simp
  have bodyPost: "[p \<leftarrow> headerAndParameterFields postItem. isBodyField (item_type postItem) p] = []"
    unfolding items by code_simp
  have namesGet: "map param_field (itemPathParams getItem @
      [p \<leftarrow> headerAndParameterFields getItem. \<not> isBodyField (item_type getItem) p])
      = [''id'', ''Authorization'', ''name'', ''age'']"
    unfolding items by code_simp
  have namesPut: "map param_field (itemPathParams putItem @
      [p \<leftarrow> headerAndParameterFields putItem. \<not> isBodyField (item_type putItem) p])
      = [''id'', ''Authorization'']"
    unfolding items by code_simp
  have namesPost: "map param_field (itemPathParams postItem @
      [p \<leftarrow> headerAndParameterFields postItem. \<not> isBodyField (item_type postItem) p]) = []"
    unfolding items by code_simp
  note get = buildOperation_requestBody [of getItem asciiLowerCase asciiUpperCase]
  from get wellFormed(1) obtain opGet where
    opGet: "buildOperation asciiLowerCase asciiUpperCase getItem = Inr opGet" by blast
  from get opGet bodyGet namesGet have 1: "\<exists>operation parameterObjects.
      buildOperation asciiLowerCase asciiUpperCase getItem = Inr operation \<and>
      operation_requestBody operation = None \<and>
      operation_parameters operation = Some parameterObjects \<and>
      map parameter_name parameterObjects = [''id'', ''Authorization'', ''name'', ''age'']"
    by metis
  note put = buildOperation_requestBody [of putItem asciiLowerCase asciiUpperCase]
  from put wellFormed(2) obtain opPut where
    opPut: "buildOperation asciiLowerCase asciiUpperCase putItem = Inr opPut" by blast
  from put opPut bodyPut namesPut have 2: "\<exists>operation parameterObjects.
      buildOperation asciiLowerCase asciiUpperCase putItem = Inr operation \<and>
      operation_requestBody operation \<noteq> None \<and>
      operation_requestBody operation \<noteq> Some EmptyObject \<and>
      operation_parameters operation = Some parameterObjects \<and>
      map parameter_name parameterObjects = [''id'', ''Authorization'']"
    by metis
  note post = buildOperation_requestBody [of postItem asciiLowerCase asciiUpperCase]
  from post wellFormed(3) obtain opPost where
    opPost: "buildOperation asciiLowerCase asciiUpperCase postItem = Inr opPost" by blast
  from post opPost bodyPost namesPost have 3: "\<exists>operation.
      buildOperation asciiLowerCase asciiUpperCase postItem = Inr operation \<and>
      operation_requestBody operation = None \<and>
      operation_parameters operation = Some []"
    by (metis map_is_Nil_conv)
  from 1 2 3 show ?thesis
    unfolding items by (intro conjI)
qed

lemma buildOperation_responses:
  "buildOperation toLowerCase toUpperCase item = Inr operation \<Longrightarrow>
   addResponseGroups toLowerCase toUpperCase (successAndErrorGroups item) []
     = Inr (operation_responses operation)"
  by (auto simp: buildOperation_Inr)




subsection \<open>Status codes\<close>

lemma replaceSuccessError_first:
  assumes "m = ''Success '' \<or> m = ''Error ''"
    and "\<forall>i<length pre. \<not> startsWith (drop i (pre @ m @ rest)) ''Success '' \<and>
                         \<not> startsWith (drop i (pre @ m @ rest)) ''Error ''"
  shows "replaceSuccessError (pre @ m @ rest) = pre @ rest"
  using assms(2)
proof (induction pre)
  case Nil
  from assms(1) show ?case
    by (auto simp: startsWith_def)
next
  case (Cons c pre)
  from Cons.prems have here: "\<not> startsWith (c # pre @ m @ rest) ''Success ''"
      "\<not> startsWith (c # pre @ m @ rest) ''Error ''"
    by force+
  have "\<forall>i<length pre. \<not> startsWith (drop i (pre @ m @ rest)) ''Success '' \<and>
                        \<not> startsWith (drop i (pre @ m @ rest)) ''Error ''"
  proof (intro allI impI)
    fix i assume "i < length pre"
    then have "Suc i < length (c # pre)" by simp
    from Cons.prems [rule_format, OF this]
    show "\<not> startsWith (drop i (pre @ m @ rest)) ''Success '' \<and>
          \<not> startsWith (drop i (pre @ m @ rest)) ''Error ''"
      by simp
  qed
  from Cons.IH [OF this] here show ?case by simp
qed

lemma replaceSuccessError_none:
  "\<forall>i<length s. \<not> startsWith (drop i s) ''Success '' \<and> \<not> startsWith (drop i s) ''Error '' \<Longrightarrow>
   replaceSuccessError s = s"
proof (induction s)
  case Nil
  then show ?case by simp
next
  case (Cons c s)
  from Cons.prems have here: "\<not> startsWith (c # s) ''Success ''" "\<not> startsWith (c # s) ''Error ''"
    by force+
  have "\<forall>i<length s. \<not> startsWith (drop i s) ''Success '' \<and> \<not> startsWith (drop i s) ''Error ''"
  proof (intro allI impI)
    fix i assume "i < length s"
    then have "Suc i < length (c # s)" by simp
    from Cons.prems [rule_format, OF this]
    show "\<not> startsWith (drop i s) ''Success '' \<and> \<not> startsWith (drop i s) ''Error ''"
      by simp
  qed
  from Cons.IH [OF this] here show ?case by simp
qed


text \<open>
  Claim C7 as it is written fails: in the label \<open>Server Error 500\<close> the word \<open>Error \<close>
  is no leading prefix, and the program still takes it out.
\<close>

theorem buildOperation_statusCode_counterexample:
  "buildOperation asciiLowerCase asciiUpperCase
     (exampleItem ''/users'' ''get'' Absent None None Absent
        (Present [[exampleField ''message'' ''String'' False ''Server Error 500'']]))
   = Inr \<lparr>operation_summary = ''title'', operation_description = ''description'',
          operation_operationId = ''User.Name'', operation_parameters = Some [],
          operation_requestBody = None,
          operation_responses =
            [(''SERVER 500'',
              ObjectSchema [(''message'', ScalarSchema ''string'' None None)] [''message''])],
          operation_tags = [''User''], operation_deprecated = None\<rparr> \<and>
   asciiUpperCase (stripLeadingPrefix ''Server Error 500'') = ''SERVER ERROR 500''"
  by code_simp

text \<open>
  Claim C7, amended.  Let \<open>responses\<close> be a success or error field group of an
  endpoint with the first direct field \<open>first\<close>, \<open>before\<close> the groups that stand before
  it and \<open>after\<close> the groups that follow it; a well-formed endpoint yields an Operation.
  The status code of the group is the group label of \<open>first\<close> with the leftmost
  occurrence of \<open>Success \<close> or \<open>Error \<close> removed, at the start of the label or anywhere
  else, in upper case; a label without an occurrence is upper-cased as it is.  Unless
  a group of \<open>after\<close> yields the same code, the responses map of the Operation holds
  under that code the Response Object of this group, whatever the groups of \<open>before\<close>
  stored there: the Response Object of a later group overwrites that of an earlier
  group with the same code.  (The code is taken not to be \<open>__proto__\<close>, which no
  upper-cased string is.)
\<close>

theorem buildOperation_statusCode:
  assumes "successAndErrorGroups item = before @ [responses] @ after"
    and "directFields responses = first # others"
  shows "(wellFormedItem item \<longrightarrow>
        (\<exists>operation. buildOperation toLowerCase toUpperCase item = Inr operation)) \<and>
     (\<forall>pre word rest.
        param_group first = pre @ word @ rest \<longrightarrow> word = ''Success '' \<or> word = ''Error '' \<longrightarrow>
        (\<forall>i<length pre. \<not> startsWith (drop i (param_group first)) ''Success '' \<and>
                         \<not> startsWith (drop i (param_group first)) ''Error '') \<longrightarrow>
        statusCodeOf toUpperCase first = toUpperCase (pre @ rest)) \<and>
     ((\<forall>i<length (param_group first).
          \<not> startsWith (drop i (param_group first)) ''Success '' \<and>
          \<not> startsWith (drop i (param_group first)) ''Error '') \<longrightarrow>
      statusCodeOf toUpperCase first = toUpperCase (param_group first)) \<and>
     (\<forall>operation.
        buildOperation toLowerCase toUpperCase item = Inr operation \<longrightarrow>
        statusCodeOf toUpperCase first \<noteq> ''__proto__'' \<longrightarrow>
        (\<forall>g\<in>set after. \<forall>r rs. directFields g = r # rs \<longrightarrow>
           statusCodeOf toUpperCase r \<noteq> statusCodeOf toUpperCase first) \<longrightarrow>
        (\<exists>responseObject.
           addResponseGroups toLowerCase toUpperCase [responses] []
             = Inr [(statusCodeOf toUpperCase first, responseObject)] \<and>
           map_of (operation_responses operation) (statusCodeOf toUpperCase first)
             = Some responseObject))"
proof (intro conjI allI impI)
  assume "wellFormedItem item"
  then show "\<exists>operation. buildOperation toLowerCase toUpperCase item = Inr operation"
    by (rule buildOperation_wellFormed)
next
  fix pre word rest
  assume "param_group first = pre @ word @ rest" and "word = ''Success '' \<or> word = ''Error ''"
    and "\<forall>i<length pre. \<not> startsWith (drop i (param_group first)) ''Success '' \<and>
                         \<not> startsWith (drop i (param_group first)) ''Error ''"
  then show "statusCodeOf toUpperCase first = toUpperCase (pre @ rest)"
    using replaceSuccessError_first [of word pre rest]
    by (simp add: statusCodeOf_def)
next
  assume "\<forall>i<length (param_group first).
      \<not> startsWith (drop i (param_group first)) ''Success '' \<and>
      \<not> startsWith (drop i (param_group first)) ''Error ''"
  then show "statusCodeOf toUpperCase first = toUpperCase (param_group first)"
    using replaceSuccessError_none [of "param_group first"]
    by (simp add: statusCodeOf_def)
next
  fix operation
  let ?code = "statusCodeOf toUpperCase first"
  assume operation: "buildOperation toLowerCase toUpperCase item = Inr operation"
    and code: "?code \<noteq> ''__proto__''"
    and later: "\<forall>g\<in>set after. \<forall>r rs. directFields g = r # rs \<longrightarrow>
        statusCodeOf toUpperCase r \<noteq> ?code"
  from buildOperation_responses [OF operation] assms(1)
  have "addResponseGroups toLowerCase toUpperCase (before @ [responses] @ after) []
      = Inr (operation_responses operation)"
    by simp
  from addResponseGroups_split [OF this] obtain responsesBefore responsesAfter where
    2: "addResponseGroups toLowerCase toUpperCase [responses] responsesBefore = Inr responsesAfter" and
    3: "addResponseGroups toLowerCase toUpperCase after responsesAfter
          = Inr (operation_responses operation)"
    by blast
  let ?object = "ObjectSchema
      (fold (\<lambda>r. assign (param_field r) (projr (getSchema toLowerCase responses r))) (first # others) [])
      (map param_field (filter (\<lambda>r. \<not> param_optional r) (first # others)))"
  note single = addResponseGroups_single [OF addResponseGroups_single_Inr [OF 2], of toUpperCase]
  from single [of responsesBefore] 2 assms(2)
  have after: "responsesAfter = assign ?code ?object responsesBefore"
    by (simp del: fold_simps filter.simps)
  from single [of "[]"] assms(2) code
  have alone: "addResponseGroups toLowerCase toUpperCase [responses] [] = Inr [(?code, ?object)]"
    by (simp add: assign_def del: fold_simps filter.simps)
  from addResponseGroups_other_code [OF 3 later] after code
  have "map_of (operation_responses operation) ?code = Some ?object"
    by (simp add: map_of_assign)
  with alone
  show "\<exists>responseObject.
      addResponseGroups toLowerCase toUpperCase [responses] [] = Inr [(?code, responseObject)] \<and>
      map_of (operation_responses operation) ?code = Some responseObject"
    by blast
qed

theorem buildOperation_statusCode_witness:
  "(\<exists>operation.
      buildOperation asciiLowerCase asciiUpperCase
        (exampleItem ''/users'' ''get'' Absent None None
           (Present [[exampleField ''id'' ''Number'' False ''Success 200'']])
           (Present [[exampleField ''message'' ''String'' False ''Server Error 500''],
                     [exampleField ''reason'' ''String'' False ''Error SERVER 500''],
                     [exampleField ''detail'' ''String'' True ''Not Found'']]))
        = Inr operation \<and>
      map_of (operation_responses operation) ''SERVER 500''
        = Some (ObjectSchema [(''reason'', ScalarSchema ''string'' None None)] [''reason''])) \<and>
   statusCodeOf asciiUpperCase (exampleField ''id'' ''Number'' False ''Success 200'') = ''200'' \<and>
   statusCodeOf asciiUpperCase (exampleField ''message'' ''String'' False ''Server Error 500'')
     = ''SERVER 500'' \<and>
   statusCodeOf asciiUpperCase (exampleField ''detail'' ''String'' True ''Not Found'')
     = ''NOT FOUND''"
proof -
  define ok where "ok = [exampleField ''id'' ''Number'' False ''Success 200'']"
  define earlier where "earlier = [exampleField ''message'' ''String'' False ''Server Error 500'']"
  define later where "later = [exampleField ''reason'' ''String'' False ''Error SERVER 500'']"
  define missing where "missing = [exampleField ''detail'' ''String'' True ''Not Found'']"
  define endpoint where "endpoint =
     exampleItem ''/users'' ''get'' Absent None None (Present [ok])
       (Present [earlier, later, missing])"
  note items = endpoint_def ok_def earlier_def later_def missing_def
  have wellFormed: "wellFormedItem endpoint"
    unfolding items by code_simp
  have groups:
    "successAndErrorGroups endpoint = [] @ [ok] @ [earlier, later, missing]"
    "successAndErrorGroups endpoint = [ok] @ [earlier] @ [later, missing]"
    "successAndErrorGroups endpoint = [ok, earlier] @ [later] @ [missing]"
    "successAndErrorGroups endpoint = [ok, earlier, later] @ [missing] @ []"
    unfolding items by code_simp+
  have direct:
    "directFields ok = exampleField ''id'' ''Number'' False ''Success 200'' # []"
    "directFields earlier = exampleField ''message'' ''String'' False ''Server Error 500'' # []"
    "directFields later = exampleField ''reason'' ''String'' False ''Error SERVER 500'' # []"
    "directFields missing = exampleField ''detail'' ''String'' True ''Not Found'' # []"
    unfolding items by code_simp+
  have upper: "asciiUpperCase ''200'' = ''200''"
    "asciiUpperCase ''Server 500'' = ''SERVER 500''"
    "asciiUpperCase ''SERVER 500'' = ''SERVER 500''"
    "asciiUpperCase ''Not Found'' = ''NOT FOUND''"
    by code_simp+
  have leftmost: "\<forall>i<length ''Server ''. \<not> startsWith (drop i ''Server Error 500'') ''Success '' \<and>
      \<not> startsWith (drop i ''Server Error 500'') ''Error ''"
    by (simp add: startsWith_def less_Suc_eq)
  have none: "\<forall>i<length ''Not Found''. \<not> startsWith (drop i ''Not Found'') ''Success '' \<and>
      \<not> startsWith (drop i ''Not Found'') ''Error ''"
    by (simp add: startsWith_def less_Suc_eq)
  note first = buildOperation_statusCode [OF groups(1) direct(1), of asciiLowerCase asciiUpperCase]
  note second = buildOperation_statusCode [OF groups(2) direct(2), of asciiLowerCase asciiUpperCase]
  note third = buildOperation_statusCode [OF groups(3) direct(3), of asciiLowerCase asciiUpperCase]
  note fourth = buildOperation_statusCode [OF groups(4) direct(4), of asciiLowerCase asciiUpperCase]
  from first [THEN conjunct2, THEN conjunct1, rule_format, of "''''" "''Success ''" "''200''"]
  have codeOk: "statusCodeOf asciiUpperCase (exampleField ''id'' ''Number'' False ''Success 200'') = ''200''"
    by (simp add: upper)
  from second [THEN conjunct2, THEN conjunct1, rule_format, of "''Server ''" "''Error ''" "''500''"]
    leftmost
  have codeEarlier: "statusCodeOf asciiUpperCase
      (exampleField ''message'' ''String'' False ''Server Error 500'') = ''SERVER 500''"
    by (simp add: upper)
  from third [THEN conjunct2, THEN conjunct1, rule_format, of "''''" "''Error ''" "''SERVER 500''"]
  have codeLater: "statusCodeOf asciiUpperCase
      (exampleField ''reason'' ''String'' False ''Error SERVER 500'') = ''SERVER 500''"
    by (simp add: upper)
  from fourth [THEN conjunct2, THEN conjunct2, THEN conjunct1] none
  have codeMissing: "statusCodeOf asciiUpperCase
      (exampleField ''detail'' ''String'' True ''Not Found'') = ''NOT FOUND''"
    by (simp add: upper)
  from third [THEN conjunct1, THEN mp, OF wellFormed] obtain operation where
    operation: "buildOperation asciiLowerCase asciiUpperCase endpoint = Inr operation" ..
  have noLater: "\<forall>g\<in>set [missing]. \<forall>r rs. directFields g = r # rs \<longrightarrow>
      statusCodeOf asciiUpperCase r
        \<noteq> statusCodeOf asciiUpperCase (exampleField ''reason'' ''String'' False ''Error SERVER 500'')"
    by (simp add: direct codeLater codeMissing)
  have alone: "addResponseGroups asciiLowerCase asciiUpperCase [later] []
      = Inr [(''SERVER 500'', ObjectSchema [(''reason'', ScalarSchema ''string'' None None)] [''reason''])]"
    unfolding items by code_simp
  from third [THEN conjunct2, THEN conjunct2, THEN conjunct2, rule_format, OF operation _ noLater [rule_format]]
    alone
  have "map_of (operation_responses operation) ''SERVER 500''
      = Some (ObjectSchema [(''reason'', ScalarSchema ''string'' None None)] [''reason''])"
    by (auto simp: codeLater)
  with operation have "\<exists>operation.
      buildOperation asciiLowerCase asciiUpperCase endpoint = Inr operation \<and>
      map_of (operation_responses operation) ''SERVER 500''
        = Some (ObjectSchema [(''reason'', ScalarSchema ''string'' None None)] [''reason''])"
    by (intro exI conjI)
  with codeOk codeEarlier codeMissing show ?thesis
    unfolding items by (intro conjI)
qed

section \<open>The paths map\<close>

lemma getPathsLoop_Inr_iff:
  "(\<exists>p. getPathsLoop toLowerCase toUpperCase data p0 = Inr p) \<longleftrightarrow>
   (\<forall>item\<in>set data. \<exists>operation. buildOperation toLowerCase toUpperCase item = Inr operation)"
proof (induction data arbitrary: p0)
  case Nil
  then show ?case by simp
next
  case (Cons item data)
  show ?case
  proof (cases "buildOperation toLowerCase toUpperCase item")
    case (Inl e)
    then show ?thesis by (auto simp: Let_def)
  next
    case (Inr operation)
    with Cons.IH show ?thesis by (simp add: Let_def)
  qed
qed

lemma getPaths_wellFormed:
  "\<forall>item\<in>set data. wellFormedItem item \<Longrightarrow>
   \<exists>pathsObject. getPaths toLowerCase toUpperCase data = Inr pathsObject"
  unfolding getPaths_def getPathsLoop_Inr_iff by (simp add: buildOperation_wellFormed)

lemma lookupOperation_update:
  "lookupOperation
     (AList.update endpoint
        (assign httpMethod operation
           (case map_of p0 endpoint of None \<Rightarrow> [] | Some pio \<Rightarrow> pio)) p0) r m =
   (if r = endpoint \<and> m = httpMethod \<and> m \<noteq> ''__proto__'' then Some operation
    else lookupOperation p0 r m)"
  by (auto simp: lookupOperation_def update_conv' map_of_assign split: option.splits)

text \<open>
  What the output holds at a route and a method: the Operation of the last record of
  the input with that route and method.
\<close>

lemma getPathsLoop_lookup:
  "getPathsLoop toLowerCase toUpperCase data p0 = Inr p \<Longrightarrow>
   lookupOperation p r m =
     (if r \<in> set objectPrototypeNames \<or> m = ''__proto__'' then lookupOperation p0 r m
      else
       (case [item \<leftarrow> data. toPatternedFieldname (item_url item) = r \<and> item_type item = m] of
          [] \<Rightarrow> lookupOperation p0 r m
        | item # items \<Rightarrow>
            (case buildOperation toLowerCase toUpperCase (last (item # items)) of
               Inl e \<Rightarrow> None
             | Inr operation \<Rightarrow> Some operation)))"
proof (induction data arbitrary: p0)
  case Nil
  then show ?case by simp
next
  case (Cons item data)
  from Cons.prems obtain operation where
    operation: "buildOperation toLowerCase toUpperCase item = Inr operation"
    by (auto simp: Let_def split: sum.splits)
  show ?case
  proof (cases "toPatternedFieldname (item_url item) \<in> set objectPrototypeNames")
    case True
    with Cons.prems operation have "getPathsLoop toLowerCase toUpperCase data p0 = Inr p"
      by (simp add: Let_def)
    from Cons.IH [OF this] True show ?thesis
      by auto
  next
    case False
    with Cons.prems operation have rest: "getPathsLoop toLowerCase toUpperCase data
      (AList.update (toPatternedFieldname (item_url item))
         (assign (item_type item) operation
            (case map_of p0 (toPatternedFieldname (item_url item)) of
               None \<Rightarrow> [] | Some pio \<Rightarrow> pio)) p0) = Inr p"
      by (simp add: Let_def)
    show ?thesis
      unfolding Cons.IH [OF rest] lookupOperation_update
      using False
      by (cases "[item \<leftarrow> data. toPatternedFieldname (item_url item) = r \<and> item_type item = m]")
        (auto simp: operation)
  qed
qed

lemma getPathsLoop_keys:
  "getPathsLoop toLowerCase toUpperCase data p0 = Inr p \<Longrightarrow>
   fst ` set p = fst ` set p0 \<union>
     {r \<in> (\<lambda>item. toPatternedFieldname (item_url item)) ` set data. r \<notin> set objectPrototypeNames}"
proof (induction data arbitrary: p0)
  case Nil
  then show ?case by simp
next
  case (Cons item data)
  show ?case
  proof (cases "toPatternedFieldname (item_url item) \<in> set objectPrototypeNames")
    case True
    with Cons.prems have "getPathsLoop toLowerCase toUpperCase data p0 = Inr p"
      by (auto simp: Let_def split: sum.splits)
    from Cons.IH [OF this] True show ?thesis by auto
  next
    case False
    with Cons.prems obtain p1 where
      rest: "getPathsLoop toLowerCase toUpperCase data p1 = Inr p" and
      keys: "fst ` set p1 = {toPatternedFieldname (item_url item)} \<union> fst ` set p0"
      by (auto simp: Let_def dom_update split: sum.splits)
    from Cons.IH [OF rest] keys False show ?thesis by auto
  qed
qed

lemma getPathsLoop_distinct:
  "getPathsLoop toLowerCase toUpperCase data p0 = Inr p \<Longrightarrow> distinct (map fst p0) \<Longrightarrow>
   distinct (map fst p)"
proof (induction data arbitrary: p0)
  case Nil
  then show ?case by simp
next
  case (Cons item data)
  from Cons.prems obtain p1 where
    rest: "getPathsLoop toLowerCase toUpperCase data p1 = Inr p" and "distinct (map fst p1)"
    by (auto simp: Let_def distinct_update split: sum.splits if_splits)
  with Cons.IH show ?case by blast
qed

lemma lookupOperation_Some:
  "lookupOperation p r m = Some operation \<longleftrightarrow>
     (\<exists>pathItemObject. map_of p r = Some pathItemObject \<and> map_of pathItemObject m = Some operation)"
  by (auto simp: lookupOperation_def split: option.splits)

lemma pathsObject_same_maps:
  assumes keys: "fst ` set p1 = fst ` set p2"
    and lookups: "\<And>r m. lookupOperation p1 r m = lookupOperation p2 r m"
  shows "map_option map_of (map_of p1 endpoint) = map_option map_of (map_of p2 endpoint)"
proof (cases "map_of p1 endpoint")
  case None
  then have "endpoint \<notin> fst ` set p1" by (simp add: map_of_eq_None_iff)
  with keys have "map_of p2 endpoint = None" by (simp add: map_of_eq_None_iff)
  with None show ?thesis by simp
next
  case (Some pio1)
  then have "endpoint \<in> fst ` set p1"
    by (metis map_of_eq_None_iff option.distinct(1))
  with keys obtain pio2 where pio2: "map_of p2 endpoint = Some pio2"
    by (metis map_of_eq_None_iff not_None_eq)
  have "map_of pio1 m = map_of pio2 m" for m
    using lookups [of endpoint m] Some pio2 by (simp add: lookupOperation_def)
  then have "map_of pio1 = map_of pio2" by (rule ext)
  with Some pio2 show ?thesis by simp
qed

lemma getPaths_lookup_lastRecord:
  assumes paths: "getPaths toLowerCase toUpperCase data = Inr pathsObject"
    and member: "a \<in> set data"
    and route: "toPatternedFieldname (item_url a) = endpoint"
    and ordinary: "endpoint \<notin> set objectPrototypeNames" "item_type a \<noteq> ''__proto__''"
  shows "\<exists>operation.
      buildOperation toLowerCase toUpperCase (lastRecord data endpoint (item_type a)) = Inr operation \<and>
      lookupOperation pathsObject endpoint (item_type a) = Some operation"
proof -
  let ?records = "[item \<leftarrow> data. toPatternedFieldname (item_url item) = endpoint \<and>
      item_type item = item_type a]"
  from paths have loop: "getPathsLoop toLowerCase toUpperCase data [] = Inr pathsObject"
    by (simp add: getPaths_def)
  from member route have nonempty: "?records \<noteq> []"
    by (auto simp: filter_empty_conv)
  then have "last ?records \<in> set ?records" by (rule last_in_set)
  then have "last ?records \<in> set data" by simp
  with loop obtain operation where
    operation: "buildOperation toLowerCase toUpperCase (last ?records) = Inr operation"
    using getPathsLoop_Inr_iff [of toLowerCase toUpperCase data "[]"] by blast
  with getPathsLoop_lookup [OF loop, of endpoint "item_type a"] nonempty ordinary
  have "lookupOperation pathsObject endpoint (item_type a) = Some operation"
    by (auto split: list.splits)
  with operation show ?thesis
    by (auto simp: lastRecord_def)
qed

text \<open>
  Claim C9 as it is written fails.  The first input holds a \<open>get\<close> and a \<open>post\<close>
  record of the route \<open>/users/{id}\<close> and then a second \<open>get\<close> record of that route:
  the key \<open>get\<close> of the Path Item holds the Operation of the second \<open>get\<close> record (no
  parameters), not the Operation built from the first one (the path parameter \<open>id\<close>).
  In the second input the route of the two records is \<open>constructor\<close>, the name of a
  member that every object inherits: the Operations are stored on that member (the
  function \<open>Object\<close>, under keys that the program never reads), and the output has no
  Path Item.  In the third the method of one record is \<open>__proto__\<close>: the Path Item
  has no such key.
\<close>

theorem getPaths_two_methods_counterexample:
  "getPaths asciiLowerCase asciiUpperCase
     [exampleItem ''/users/:id'' ''get'' Absent None
        (Some [exampleField ''id'' ''Number'' False ''URI Parameter'']) Absent Absent,
      exampleItem ''/users/{id}'' ''post'' Absent None None Absent Absent,
      exampleItem ''/users/{id}'' ''get'' Absent None None Absent Absent]
   = Inr [(''/users/{id}'',
           [(''get'',
             \<lparr>operation_summary = ''title'', operation_description = ''description'',
              operation_operationId = ''User.Name'', operation_parameters = Some [],
              operation_requestBody = None, operation_responses = [],
              operation_tags = [''User''], operation_deprecated = None\<rparr>),
            (''post'',
             \<lparr>operation_summary = ''title'', operation_description = ''description'',
              operation_operationId = ''User.Name'', operation_parameters = Some [],
              operation_requestBody = None, operation_responses = [],
              operation_tags = [''User''], operation_deprecated = None\<rparr>)])] \<and>
   buildOperation asciiLowerCase asciiUpperCase
     (exampleItem ''/users/:id'' ''get'' Absent None
        (Some [exampleField ''id'' ''Number'' False ''URI Parameter'']) Absent Absent)
   = Inr \<lparr>operation_summary = ''title'', operation_description = ''description'',
          operation_operationId = ''User.Name'',
          operation_parameters =
            Some [\<lparr>parameter_name = ''id'', parameter_description = '''',
                   parameter_in = ''path'', parameter_required = True,
                   parameter_schema = ScalarSchema ''number'' None None\<rparr>],
          operation_requestBody = None, operation_responses = [],
          operation_tags = [''User''], operation_deprecated = None\<rparr> \<and>
   getPaths asciiLowerCase asciiUpperCase
     [exampleItem ''constructor'' ''get'' Absent None None Absent Absent,
      exampleItem ''constructor'' ''post'' Absent None None Absent Absent]
   = Inr [] \<and>
   getPaths asciiLowerCase asciiUpperCase
     [exampleItem ''/users'' ''get'' Absent None None Absent Absent,
      exampleItem ''/users'' ''__proto__'' Absent None None Absent Absent]
   = Inr [(''/users'',
           [(''get'',
             \<lparr>operation_summary = ''title'', operation_description = ''description'',
              operation_operationId = ''User.Name'', operation_parameters = Some [],
              operation_requestBody = None, operation_responses = [],
              operation_tags = [''User''], operation_deprecated = None\<rparr>)])]"
  by code_simp

text \<open>
  Claim C9, amended.  Two endpoint records \<open>a\<close> and \<open>b\<close> of an input whose routes
  normalize to the same path and whose methods differ, where no route of the input is
  the name of a member that every object inherits and neither method is \<open>__proto__\<close>:
  the output (there is one whenever every record is well formed) has one Path Item
  under that path, and it holds under each of the two methods the Operation built from
  the last record of the input with that route and that method; this is the record
  \<open>a\<close> or \<open>b\<close> itself when no later record has its route and method.
\<close>

theorem getPaths_two_methods:
  assumes members: "a \<in> set data" "b \<in> set data"
    and route: "toPatternedFieldname (item_url a) = endpoint"
               "toPatternedFieldname (item_url b) = endpoint"
    and methods: "item_type a \<noteq> item_type b"
    and ordinary: "\<forall>item\<in>set data. toPatternedFieldname (item_url item) \<notin> set objectPrototypeNames"
                  "item_type a \<noteq> ''__proto__''" "item_type b \<noteq> ''__proto__''"
  shows "((\<forall>item\<in>set data. wellFormedItem item) \<longrightarrow>
        (\<exists>pathsObject. getPaths toLowerCase toUpperCase data = Inr pathsObject)) \<and>
     (\<forall>pathsObject. getPaths toLowerCase toUpperCase data = Inr pathsObject \<longrightarrow>
        (\<exists>pathItemObject operationA operationB.
           map_of pathsObject endpoint = Some pathItemObject \<and>
           length [entry \<leftarrow> pathsObject. fst entry = endpoint] = 1 \<and>
           buildOperation toLowerCase toUpperCase (lastRecord data endpoint (item_type a))
             = Inr operationA \<and>
           map_of pathItemObject (item_type a) = Some operationA \<and>
           buildOperation toLowerCase toUpperCase (lastRecord data endpoint (item_type b))
             = Inr operationB \<and>
           map_of pathItemObject (item_type b) = Some operationB)) \<and>
     (\<forall>endpointRecord before after.
        data = before @ [endpointRecord] @ after \<longrightarrow>
        toPatternedFieldname (item_url endpointRecord) = endpoint \<longrightarrow>
        (\<forall>item\<in>set after. \<not> (toPatternedFieldname (item_url item) = endpoint \<and>
                                 item_type item = item_type endpointRecord)) \<longrightarrow>
        lastRecord data endpoint (item_type endpointRecord) = endpointRecord)"
proof (intro conjI allI impI)
  assume "\<forall>item\<in>set data. wellFormedItem item"
  then show "\<exists>pathsObject. getPaths toLowerCase toUpperCase data = Inr pathsObject"
    by (rule getPaths_wellFormed)
next
  fix pathsObject
  assume paths: "getPaths toLowerCase toUpperCase data = Inr pathsObject"
  from ordinary(1) members(1) route(1) have endpoint: "endpoint \<notin> set objectPrototypeNames"
    by blast
  from getPaths_lookup_lastRecord [OF paths members(1) route(1) endpoint ordinary(2)]
  obtain operationA where
    operationA: "buildOperation toLowerCase toUpperCase (lastRecord data endpoint (item_type a))
        = Inr operationA"
    and A: "lookupOperation pathsObject endpoint (item_type a) = Some operationA"
    by blast
  from getPaths_lookup_lastRecord [OF paths members(2) route(2) endpoint ordinary(3)]
  obtain operationB where
    operationB: "buildOperation toLowerCase toUpperCase (lastRecord data endpoint (item_type b))
        = Inr operationB"
    and B: "lookupOperation pathsObject endpoint (item_type b) = Some operationB"
    by blast
  from paths have loop: "getPathsLoop toLowerCase toUpperCase data [] = Inr pathsObject"
    by (simp add: getPaths_def)
  from getPathsLoop_distinct [OF loop] have "distinct (map fst pathsObject)"
    by simp
  moreover from A have "endpoint \<in> fst ` set pathsObject"
    by (auto simp: lookupOperation_Some dest: map_of_SomeD intro: rev_image_eqI)
  ultimately have single: "length [entry \<leftarrow> pathsObject. fst entry = endpoint] = 1"
    by (induction pathsObject) (auto simp: filter_empty_conv rev_image_eqI)
  from A B operationA operationB single
  show "\<exists>pathItemObject operationA operationB.
      map_of pathsObject endpoint = Some pathItemObject \<and>
      length [entry \<leftarrow> pathsObject. fst entry = endpoint] = 1 \<and>
      buildOperation toLowerCase toUpperCase (lastRecord data endpoint (item_type a))
        = Inr operationA \<and>
      map_of pathItemObject (item_type a) = Some operationA \<and>
      buildOperation toLowerCase toUpperCase (lastRecord data endpoint (item_type b))
        = Inr operationB \<and>
      map_of pathItemObject (item_type b) = Some operationB"
    by (auto simp: lookupOperation_Some)
next
  fix endpointRecord before after
  assume "data = before @ [endpointRecord] @ after"
    and "toPatternedFieldname (item_url endpointRecord) = endpoint"
    and "\<forall>item\<in>set after. \<not> (toPatternedFieldname (item_url item) = endpoint \<and>
                               item_type item = item_type endpointRecord)"
  then show "lastRecord data endpoint (item_type endpointRecord) = endpointRecord"
    by (simp add: lastRecord_def filter_empty_conv)
qed

theorem getPaths_two_methods_witness:
  "\<exists>pathsObject pathItemObject operationA operationB.
     getPaths asciiLowerCase asciiUpperCase
       [exampleItem ''/users/:id'' ''get'' Absent None
          (Some [exampleField ''id'' ''Number'' False ''URI Parameter'']) Absent Absent,
        exampleItem ''/users/{id}'' ''post'' Absent
          (Some [exampleField ''name'' ''String'' False ''Parameter'']) None Absent Absent,
        exampleItem ''/users/{id}'' ''get'' Absent None None Absent Absent]
       = Inr pathsObject \<and>
     map_of pathsObject ''/users/{id}'' = Some pathItemObject \<and>
     length [entry \<leftarrow> pathsObject. fst entry = ''/users/{id}''] = 1 \<and>
     buildOperation asciiLowerCase asciiUpperCase
       (exampleItem ''/users/{id}'' ''get'' Absent None None Absent Absent) = Inr operationA \<and>
     map_of pathItemObject ''get'' = Some operationA \<and>
     buildOperation asciiLowerCase asciiUpperCase
       (exampleItem ''/users/{id}'' ''post'' Absent
          (Some [exampleField ''name'' ''String'' False ''Parameter'']) None Absent Absent)
       = Inr operationB \<and>
     map_of pathItemObject ''post'' = Some operationB"
proof -
  define first where "first = exampleItem ''/users/:id'' ''get'' Absent None
      (Some [exampleField ''id'' ''Number'' False ''URI Parameter'']) Absent Absent"
  define second where "second = exampleItem ''/users/{id}'' ''post'' Absent
      (Some [exampleField ''name'' ''String'' False ''Parameter'']) None Absent Absent"
  define third where "third = exampleItem ''/users/{id}'' ''get'' Absent None None Absent Absent"
  note items = first_def second_def third_def
  have routes: "toPatternedFieldname (item_url first) = ''/users/{id}''"
    "toPatternedFieldname (item_url second) = ''/users/{id}''"
    "toPatternedFieldname (item_url third) = ''/users/{id}''"
    unfolding items by code_simp+
  have methods: "item_type first = ''get''" "item_type second = ''post''"
    "item_type third = ''get''"
    unfolding items by simp_all
  have ordinary: "\<forall>item\<in>set [first, second, third].
      toPatternedFieldname (item_url item) \<notin> set objectPrototypeNames"
    by (simp add: routes objectPrototypeNames_def)
  have wellFormed: "\<forall>item\<in>set [first, second, third]. wellFormedItem item"
    unfolding items by code_simp
  have lastGet: "lastRecord [first, second, third] ''/users/{id}'' ''get'' = third"
    by (simp add: lastRecord_def routes methods)
  have lastPost: "lastRecord [first, second, third] ''/users/{id}'' ''post'' = second"
    by (simp add: lastRecord_def routes methods)
  note two = getPaths_two_methods
    [where a = first and b = second and data = "[first, second, third]"
       and endpoint = "''/users/{id}''" and toLowerCase = asciiLowerCase
       and toUpperCase = asciiUpperCase,
     OF _ _ routes(1) routes(2) _ ordinary, unfolded methods lastGet lastPost]
  have two': "(\<exists>pathsObject. getPaths asciiLowerCase asciiUpperCase [first, second, third] = Inr pathsObject) \<and>
     (\<forall>pathsObject. getPaths asciiLowerCase asciiUpperCase [first, second, third] = Inr pathsObject \<longrightarrow>
        (\<exists>pathItemObject operationA operationB.
           map_of pathsObject ''/users/{id}'' = Some pathItemObject \<and>
           length [entry \<leftarrow> pathsObject. fst entry = ''/users/{id}''] = 1 \<and>
           buildOperation asciiLowerCase asciiUpperCase third = Inr operationA \<and>
           map_of pathItemObject ''get'' = Some operationA \<and>
           buildOperation asciiLowerCase asciiUpperCase second = Inr operationB \<and>
           map_of pathItemObject ''post'' = Some operationB))"
    using two wellFormed by simp
  then obtain pathsObject where
    "getPaths asciiLowerCase asciiUpperCase [first, second, third] = Inr pathsObject"
    by blast
  with two' have "\<exists>pathsObject pathItemObject operationA operationB.
     getPaths asciiLowerCase asciiUpperCase [first, second, third] = Inr pathsObject \<and>
     map_of pathsObject ''/users/{id}'' = Some pathItemObject \<and>
     length [entry \<leftarrow> pathsObject. fst entry = ''/users/{id}''] = 1 \<and>
     buildOperation asciiLowerCase asciiUpperCase third = Inr operationA \<and>
     map_of pathItemObject ''get'' = Some operationA \<and>
     buildOperation asciiLowerCase asciiUpperCase second = Inr operationB \<and>
     map_of pathItemObject ''post'' = Some operationB"
    by blast
  then show ?thesis
    unfolding items .
qed

lemma getPathsLoop_lookup_last:
  assumes "getPathsLoop toLowerCase toUpperCase data [] = Inr p"
  shows "lookupOperation p r m =
     (if r \<in> set objectPrototypeNames \<or> m = ''__proto__'' \<or>
         [item \<leftarrow> data. toPatternedFieldname (item_url item) = r \<and> item_type item = m] = []
      then None
      else (case buildOperation toLowerCase toUpperCase
                   (last [item \<leftarrow> data. toPatternedFieldname (item_url item) = r \<and>
                                          item_type item = m]) of
              Inl e \<Rightarrow> None
            | Inr operation \<Rightarrow> Some operation))"
  using getPathsLoop_lookup [OF assms, of r m]
  by (auto simp: lookupOperation_def split: list.splits)

lemma getPaths_same_method_Inr:
  assumes paths: "getPaths toLowerCase toUpperCase (before @ [earlier] @ between @ [later] @ after)
        = Inr pathsObject1"
    and route: "toPatternedFieldname (item_url earlier) = toPatternedFieldname (item_url later)"
    and sameMethod: "item_type earlier = item_type later"
  shows "\<exists>pathsObject2 operation.
      getPaths toLowerCase toUpperCase (before @ between @ [later] @ after) = Inr pathsObject2 \<and>
      (\<forall>endpoint. map_option map_of (map_of pathsObject1 endpoint) =
                   map_option map_of (map_of pathsObject2 endpoint)) \<and>
      buildOperation toLowerCase toUpperCase later = Inr operation \<and>
      ((\<forall>item\<in>set after. \<not> (toPatternedFieldname (item_url item) =
                                  toPatternedFieldname (item_url later) \<and>
                                item_type item = item_type later)) \<longrightarrow>
       toPatternedFieldname (item_url later) \<notin> set objectPrototypeNames \<longrightarrow>
       item_type later \<noteq> ''__proto__'' \<longrightarrow>
       lookupOperation pathsObject1 (toPatternedFieldname (item_url later)) (item_type later)
         = Some operation)"
proof -
  let ?data1 = "before @ [earlier] @ between @ [later] @ after"
  let ?data2 = "before @ between @ [later] @ after"
  from paths have loop1: "getPathsLoop toLowerCase toUpperCase ?data1 [] = Inr pathsObject1"
    by (simp add: getPaths_def)
  then have built: "\<forall>item\<in>set ?data1. \<exists>operation.
      buildOperation toLowerCase toUpperCase item = Inr operation"
    using getPathsLoop_Inr_iff [of toLowerCase toUpperCase ?data1 "[]"] by blast
  then have "\<forall>item\<in>set ?data2. \<exists>operation.
      buildOperation toLowerCase toUpperCase item = Inr operation"
    by auto
  then obtain pathsObject2 where
    loop2: "getPathsLoop toLowerCase toUpperCase ?data2 [] = Inr pathsObject2"
    using getPathsLoop_Inr_iff [of toLowerCase toUpperCase ?data2 "[]"] by blast
  from built obtain operation where
    operation: "buildOperation toLowerCase toUpperCase later = Inr operation"
    by auto
  have keys: "fst ` set pathsObject1 = fst ` set pathsObject2"
    using getPathsLoop_keys [OF loop1] getPathsLoop_keys [OF loop2] route by auto
  have lookups: "lookupOperation pathsObject1 r m = lookupOperation pathsObject2 r m" for r m
    unfolding getPathsLoop_lookup_last [OF loop1] getPathsLoop_lookup_last [OF loop2]
    using route sameMethod by auto
  have same: "\<forall>endpoint. map_option map_of (map_of pathsObject1 endpoint) =
      map_option map_of (map_of pathsObject2 endpoint)"
    using pathsObject_same_maps [OF keys lookups] by blast
  have replaced: "lookupOperation pathsObject1 (toPatternedFieldname (item_url later)) (item_type later)
      = Some operation"
    if "\<forall>item\<in>set after. \<not> (toPatternedFieldname (item_url item) =
          toPatternedFieldname (item_url later) \<and> item_type item = item_type later)"
      and "toPatternedFieldname (item_url later) \<notin> set objectPrototypeNames"
      and "item_type later \<noteq> ''__proto__''"
  proof -
    from that(1) have "[item \<leftarrow> after. toPatternedFieldname (item_url item) =
        toPatternedFieldname (item_url later) \<and> item_type item = item_type later] = []"
      by (auto simp: filter_empty_conv)
    with that(2,3) show ?thesis
      unfolding getPathsLoop_lookup_last [OF loop1] by (simp add: operation)
  qed
  from loop2 same operation replaced show ?thesis
    by (auto simp: getPaths_def)
qed

text \<open>
  Claim C10 as it is written fails.  In the first input the method of the two records
  is \<open>__proto__\<close>: the assignment \<open>pathItemObject['__proto__'] = ...\<close> adds no member,
  so the Path Item of the output holds no Operation, neither that of the later record
  nor any other.  In the second input the route of the two records is \<open>constructor\<close>,
  the name of a member that every object inherits: the output has no Path Item.  In
  the third input the earlier record does contribute to the output: with it the key
  \<open>/users\<close> stands before the key \<open>/posts\<close>, without it after.
\<close>

theorem getPaths_same_method_counterexample:
  "getPaths asciiLowerCase asciiUpperCase
     [exampleItem ''/users'' ''__proto__'' Absent
        (Some [exampleField ''page'' ''Number'' True ''Parameter'']) None Absent Absent,
      exampleItem ''/users'' ''__proto__'' Absent None None Absent Absent]
   = Inr [(''/users'', [])] \<and>
   getPaths asciiLowerCase asciiUpperCase
     [exampleItem ''constructor'' ''get'' Absent
        (Some [exampleField ''page'' ''Number'' True ''Parameter'']) None Absent Absent,
      exampleItem ''constructor'' ''get'' Absent None None Absent Absent]
   = Inr [] \<and>
   getPaths asciiLowerCase asciiUpperCase
     [exampleItem ''/users'' ''get'' Absent
        (Some [exampleField ''page'' ''Number'' True ''Parameter'']) None Absent Absent,
      exampleItem ''/posts'' ''get'' Absent None None Absent Absent,
      exampleItem ''/users'' ''get'' Absent None None Absent Absent]
   = Inr [(''/users'',
           [(''get'',
             \<lparr>operation_summary = ''title'', operation_description = ''description'',
              operation_operationId = ''User.Name'', operation_parameters = Some [],
              operation_requestBody = None, operation_responses = [],
              operation_tags = [''User''], operation_deprecated = None\<rparr>)]),
          (''/posts'',
           [(''get'',
             \<lparr>operation_summary = ''title'', operation_description = ''description'',
              operation_operationId = ''User.Name'', operation_parameters = Some [],
              operation_requestBody = None, operation_responses = [],
              operation_tags = [''User''], operation_deprecated = None\<rparr>)])] \<and>
   getPaths asciiLowerCase asciiUpperCase
     [exampleItem ''/posts'' ''get'' Absent None None Absent Absent,
      exampleItem ''/users'' ''get'' Absent None None Absent Absent]
   = Inr [(''/posts'',
           [(''get'',
             \<lparr>operation_summary = ''title'', operation_description = ''description'',
              operation_operationId = ''User.Name'', operation_parameters = Some [],
              operation_requestBody = None, operation_responses = [],
              operation_tags = [''User''], operation_deprecated = None\<rparr>)]),
          (''/users'',
           [(''get'',
             \<lparr>operation_summary = ''title'', operation_description = ''description'',
              operation_operationId = ''User.Name'', operation_parameters = Some [],
              operation_requestBody = None, operation_responses = [],
              operation_tags = [''User''], operation_deprecated = None\<rparr>)])]"
  by code_simp

text \<open>
  Claim C10, amended.  An earlier and a later endpoint record with the same normalized
  route and the same method, in an input none of whose routes is the name of a member
  that every object inherits: the output (there is one whenever every record is well
  formed) is, read as a map from routes to maps from methods to Operations, the output
  of the input without the earlier record, so the earlier record contributes no entry
  (it can only fix the place of its route and its method among the keys); and unless
  the method is \<open>__proto__\<close> or a record after the later one has that route and
  method again, the entry read at the route and method is the Operation built from the
  later record.
\<close>

theorem getPaths_same_method:
  assumes route: "toPatternedFieldname (item_url earlier) = toPatternedFieldname (item_url later)"
    and sameMethod: "item_type earlier = item_type later"
    and ordinary: "\<forall>item\<in>set (before @ [earlier] @ between @ [later] @ after).
        toPatternedFieldname (item_url item) \<notin> set objectPrototypeNames"
  shows "((\<forall>item\<in>set (before @ [earlier] @ between @ [later] @ after). wellFormedItem item) \<longrightarrow>
      (\<exists>pathsObject1. getPaths toLowerCase toUpperCase
          (before @ [earlier] @ between @ [later] @ after) = Inr pathsObject1)) \<and>
     (\<forall>pathsObject1.
        getPaths toLowerCase toUpperCase (before @ [earlier] @ between @ [later] @ after)
          = Inr pathsObject1 \<longrightarrow>
        (\<exists>pathsObject2 operation.
           getPaths toLowerCase toUpperCase (before @ between @ [later] @ after)
             = Inr pathsObject2 \<and>
           (\<forall>endpoint. map_option map_of (map_of pathsObject1 endpoint) =
                        map_option map_of (map_of pathsObject2 endpoint)) \<and>
           buildOperation toLowerCase toUpperCase later = Inr operation \<and>
           ((\<forall>item\<in>set after. \<not> (toPatternedFieldname (item_url item) =
                                       toPatternedFieldname (item_url later) \<and>
                                     item_type item = item_type later)) \<longrightarrow>
            item_type later \<noteq> ''__proto__'' \<longrightarrow>
            lookupOperation pathsObject1 (toPatternedFieldname (item_url later)) (item_type later)
              = Some operation)))"
proof (intro conjI allI impI)
  assume "\<forall>item\<in>set (before @ [earlier] @ between @ [later] @ after). wellFormedItem item"
  then show "\<exists>pathsObject1. getPaths toLowerCase toUpperCase
      (before @ [earlier] @ between @ [later] @ after) = Inr pathsObject1"
    by (rule getPaths_wellFormed)
next
  fix pathsObject1
  assume "getPaths toLowerCase toUpperCase (before @ [earlier] @ between @ [later] @ after)
      = Inr pathsObject1"
  from getPaths_same_method_Inr [OF this route sameMethod] ordinary
  show "\<exists>pathsObject2 operation.
      getPaths toLowerCase toUpperCase (before @ between @ [later] @ after) = Inr pathsObject2 \<and>
      (\<forall>endpoint. map_option map_of (map_of pathsObject1 endpoint) =
                   map_option map_of (map_of pathsObject2 endpoint)) \<and>
      buildOperation toLowerCase toUpperCase later = Inr operation \<and>
      ((\<forall>item\<in>set after. \<not> (toPatternedFieldname (item_url item) =
                                  toPatternedFieldname (item_url later) \<and>
                                item_type item = item_type later)) \<longrightarrow>
       item_type later \<noteq> ''__proto__'' \<longrightarrow>
       lookupOperation pathsObject1 (toPatternedFieldname (item_url later)) (item_type later)
         = Some operation)"
    by auto
qed

theorem getPaths_same_method_witness:
  "\<exists>pathsObject1 pathsObject2 operation.
     getPaths asciiLowerCase asciiUpperCase
       [exampleItem ''/users/:id'' ''get'' Absent
          (Some [exampleField ''page'' ''Number'' True ''Parameter'']) None Absent Absent,
        exampleItem ''/posts'' ''get'' Absent None None Absent Absent,
        exampleItem ''/users/{id}'' ''get'' Absent None None Absent Absent,
        exampleItem ''/users/{id}'' ''post'' Absent None None Absent Absent]
       = Inr pathsObject1 \<and>
     getPaths asciiLowerCase asciiUpperCase
       [exampleItem ''/posts'' ''get'' Absent None None Absent Absent,
        exampleItem ''/users/{id}'' ''get'' Absent None None Absent Absent,
        exampleItem ''/users/{id}'' ''post'' Absent None None Absent Absent]
       = Inr pathsObject2 \<and>
     (\<forall>endpoint. map_option map_of (map_of pathsObject1 endpoint) =
                  map_option map_of (map_of pathsObject2 endpoint)) \<and>
     buildOperation asciiLowerCase asciiUpperCase
       (exampleItem ''/users/{id}'' ''get'' Absent None None Absent Absent) = Inr operation \<and>
     lookupOperation pathsObject1 ''/users/{id}'' ''get'' = Some operation"
proof -
  define earlier where "earlier = exampleItem ''/users/:id'' ''get'' Absent
      (Some [exampleField ''page'' ''Number'' True ''Parameter'']) None Absent Absent"
  define other where "other = exampleItem ''/posts'' ''get'' Absent None None Absent Absent"
  define later where "later = exampleItem ''/users/{id}'' ''get'' Absent None None Absent Absent"
  define post where "post = exampleItem ''/users/{id}'' ''post'' Absent None None Absent Absent"
  note items = earlier_def other_def later_def post_def
  have routes: "toPatternedFieldname (item_url earlier) = ''/users/{id}''"
    "toPatternedFieldname (item_url other) = ''/posts''"
    "toPatternedFieldname (item_url later) = ''/users/{id}''"
    "toPatternedFieldname (item_url post) = ''/users/{id}''"
    unfolding items by code_simp+
  have methods: "item_type earlier = ''get''" "item_type other = ''get''"
    "item_type later = ''get''" "item_type post = ''post''"
    unfolding items by simp_all
  have ordinary: "\<forall>item\<in>set ([] @ [earlier] @ [other] @ [later] @ [post]).
      toPatternedFieldname (item_url item) \<notin> set objectPrototypeNames"
    by (simp add: routes objectPrototypeNames_def)
  have wellFormed: "\<forall>item\<in>set ([] @ [earlier] @ [other] @ [later] @ [post]). wellFormedItem item"
    unfolding items by code_simp
  have route: "toPatternedFieldname (item_url earlier) = toPatternedFieldname (item_url later)"
    by (simp add: routes)
  have sameMethod: "item_type earlier = item_type later"
    by (simp add: methods)
  note same = getPaths_same_method [OF route sameMethod ordinary,
      of asciiLowerCase asciiUpperCase]
  from same [THEN conjunct1, THEN mp, OF wellFormed] obtain pathsObject1 where
    paths1: "getPaths asciiLowerCase asciiUpperCase ([] @ [earlier] @ [other] @ [later] @ [post])
        = Inr pathsObject1" ..
  from same [THEN conjunct2, THEN spec, THEN mp, OF paths1]
  obtain pathsObject2 operation where
    paths2: "getPaths asciiLowerCase asciiUpperCase ([] @ [other] @ [later] @ [post])
        = Inr pathsObject2" and
    maps: "\<forall>endpoint. map_option map_of (map_of pathsObject1 endpoint) =
        map_option map_of (map_of pathsObject2 endpoint)" and
    operation: "buildOperation asciiLowerCase asciiUpperCase later = Inr operation" and
    lookup: "(\<forall>item\<in>set [post]. \<not> (toPatternedFieldname (item_url item) =
                                       toPatternedFieldname (item_url later) \<and>
                                     item_type item = item_type later)) \<longrightarrow>
        item_type later \<noteq> ''__proto__'' \<longrightarrow>
        lookupOperation pathsObject1 (toPatternedFieldname (item_url later)) (item_type later)
          = Some operation"
    by blast
  from lookup have "lookupOperation pathsObject1 ''/users/{id}'' ''get'' = Some operation"
    by (simp add: routes methods)
  with paths1 paths2 maps operation
  have "\<exists>pathsObject1 pathsObject2 operation.
     getPaths asciiLowerCase asciiUpperCase [earlier, other, later, post] = Inr pathsObject1 \<and>
     getPaths asciiLowerCase asciiUpperCase [other, later, post] = Inr pathsObject2 \<and>
     (\<forall>endpoint. map_option map_of (map_of pathsObject1 endpoint) =
                  map_option map_of (map_of pathsObject2 endpoint)) \<and>
     buildOperation asciiLowerCase asciiUpperCase later = Inr operation \<and>
     lookupOperation pathsObject1 ''/users/{id}'' ''get'' = Some operation"
    by auto
  then show ?thesis
    unfolding items .
qed

end
